theory Spec2Isabelle
  imports Complex_Main "HOL-Library.Word"
begin

section \<open>Voxel grid\<close>

text \<open>
  The grid of \<^verbatim>\<open>server.js\<close> (class MultiplayerVoxelServer) and of
  \<^verbatim>\<open>game/VoxelWorld.js\<close> (class VoxelWorld) is the same triple: a
  \<^verbatim>\<open>Uint8Array\<close> of \<open>WORLD_SIZE\<^sup>3\<close> cells, an \<^verbatim>\<open>Int32Array\<close> of
  \<open>WORLD_SIZE\<^sup>2\<close> column heights and the flag \<^verbatim>\<open>terrainNeedsRebuild\<close>.
  A typed array is a store from index to machine integer; both arrays are allocated once
  with their full size and never resized, and every access below is guarded by the
  coordinate test of the source, so the store is a total function on the index.
  Grid coordinates are integers (they come from \<^verbatim>\<open>Math.floor\<close>,
  \<^verbatim>\<open>Math.round\<close> or integer loop counters).
\<close>

definition WORLD_SIZE :: int where
  "WORLD_SIZE = 128"

record VoxelWorld =
  world :: "int \<Rightarrow> 8 word"
  heights :: "int \<Rightarrow> 32 word"
  terrainNeedsRebuild :: bool

text \<open>The half-open integer range of a counting loop \<^verbatim>\<open>for (let i = a; i < b; i++)\<close>.\<close>

definition loopRange :: "int \<Rightarrow> int \<Rightarrow> int list" where
  "loopRange a b = map (\<lambda>k. a + int k) [0..<nat (b - a)]"

text \<open>\<^verbatim>\<open>getWorld(x, y, z)\<close>, server.js:674 and VoxelWorld.js:59.\<close>

definition getWorld :: "VoxelWorld \<Rightarrow> int \<Rightarrow> int \<Rightarrow> int \<Rightarrow> 8 word" where
  "getWorld w x y z =
     (if x < 0 \<or> x \<ge> WORLD_SIZE \<or> y < 0 \<or> y \<ge> WORLD_SIZE \<or> z < 0 \<or> z \<ge> WORLD_SIZE then 0
      else world w (x + y * WORLD_SIZE + z * WORLD_SIZE * WORLD_SIZE))"

text \<open>
  \<^verbatim>\<open>setWorld(x, y, z, value)\<close>, server.js:679. The argument is a number; the store
  into the \<^verbatim>\<open>Uint8Array\<close> keeps it modulo 256, while the returned comparison
  \<^verbatim>\<open>oldValue !== value\<close> is made with the argument itself.
\<close>

definition setWorld :: "VoxelWorld \<Rightarrow> int \<Rightarrow> int \<Rightarrow> int \<Rightarrow> int \<Rightarrow> bool \<times> VoxelWorld" where
  "setWorld w x y z val =
     (if x < 0 \<or> x \<ge> WORLD_SIZE \<or> y < 0 \<or> y \<ge> WORLD_SIZE \<or> z < 0 \<or> z \<ge> WORLD_SIZE
      then (False, w)
      else let idx = x + y * WORLD_SIZE + z * WORLD_SIZE * WORLD_SIZE;
               oldValue = world w idx;
               w' = w\<lparr>world := (world w)(idx := word_of_int val)\<rparr>
           in (uint oldValue \<noteq> val, w'))"

text \<open>
  \<^verbatim>\<open>VoxelWorld.setWorld\<close>, VoxelWorld.js:74: the same write, and the rebuild flag is
  raised when the comparison says the value changed.
\<close>

definition VoxelWorld_setWorld :: "VoxelWorld \<Rightarrow> int \<Rightarrow> int \<Rightarrow> int \<Rightarrow> int \<Rightarrow> bool \<times> VoxelWorld" where
  "VoxelWorld_setWorld w x y z val =
     (if x < 0 \<or> x \<ge> WORLD_SIZE \<or> y < 0 \<or> y \<ge> WORLD_SIZE \<or> z < 0 \<or> z \<ge> WORLD_SIZE
      then (False, w)
      else let idx = x + y * WORLD_SIZE + z * WORLD_SIZE * WORLD_SIZE;
               oldValue = world w idx;
               w' = w\<lparr>world := (world w)(idx := word_of_int val)\<rparr>
           in if uint oldValue \<noteq> val then (True, w'\<lparr>terrainNeedsRebuild := True\<rparr>)
              else (False, w'))"

text \<open>\<^verbatim>\<open>getHeight(x, z)\<close>, VoxelWorld.js:98.\<close>

definition getHeight :: "VoxelWorld \<Rightarrow> int \<Rightarrow> int \<Rightarrow> int" where
  "getHeight w x z =
     (if x < 0 \<or> x \<ge> WORLD_SIZE \<or> z < 0 \<or> z \<ge> WORLD_SIZE then 0
      else sint (heights w (x + z * WORLD_SIZE)))"

text \<open>
  The inner loop of the height rebuild: the number \<^verbatim>\<open>h\<close> of \<open>y\<close> in
  \<open>0 .. WORLD_SIZE - 1\<close> at which \<^verbatim>\<open>getWorld(x, y, z)\<close> is truthy.
\<close>

definition columnCount :: "VoxelWorld \<Rightarrow> int \<Rightarrow> int \<Rightarrow> int" where
  "columnCount w x z =
     fold (\<lambda>y h. if getWorld w x y z \<noteq> 0 then h + 1 else h) (loopRange 0 WORLD_SIZE) 0"

text \<open>\<^verbatim>\<open>rebuildTerrain()\<close>, server.js:865.\<close>

definition rebuildTerrain :: "VoxelWorld \<Rightarrow> VoxelWorld" where
  "rebuildTerrain w =
     fold (\<lambda>x w1.
       fold (\<lambda>z w2. w2\<lparr>heights := (heights w2)(x + z * WORLD_SIZE := word_of_int (columnCount w2 x z))\<rparr>)
         (loopRange 0 WORLD_SIZE) w1)
       (loopRange 0 WORLD_SIZE) w"

text \<open>\<^verbatim>\<open>rebuildHeightMap()\<close>, VoxelWorld.js:109: the same loops, then the flag is cleared.\<close>

definition rebuildHeightMap :: "VoxelWorld \<Rightarrow> VoxelWorld" where
  "rebuildHeightMap w = (rebuildTerrain w)\<lparr>terrainNeedsRebuild := False\<rparr>"

text \<open>Auxiliary notions used to reason about the height rebuild: the index of a column in
  the height array, and the body of the inner loop as a function of the column.\<close>

definition colIdx :: "int \<times> int \<Rightarrow> int" where
  "colIdx p = fst p + snd p * WORLD_SIZE"

definition putHeight :: "int \<times> int \<Rightarrow> VoxelWorld \<Rightarrow> VoxelWorld" where
  "putHeight p w2 = w2\<lparr>heights := (heights w2)(fst p + snd p * WORLD_SIZE := word_of_int (columnCount w2 (fst p) (snd p)))\<rparr>"


text \<open>A cell inside the grid.\<close>

definition inGrid :: "int \<times> int \<times> int \<Rightarrow> bool" where
  "inGrid c = (case c of (x, y, z) \<Rightarrow> 0 \<le> x \<and> x < 128 \<and> 0 \<le> y \<and> y < 128 \<and> 0 \<le> z \<and> z < 128)"


section \<open>Moving voxels\<close>

text \<open>
  Positions, velocities and times are JavaScript numbers. They are modelled as real
  numbers: the arithmetic of the source is taken exactly, without the rounding of IEEE
  doubles and without NaN or infinities. A three-element array \<^verbatim>\<open>[x, y, z]\<close> is a
  triple.
\<close>

type_synonym vec3 = "real \<times> real \<times> real"

definition GRAVITY :: real where
  "GRAVITY = 40.0"

definition SETTLE_SPEED_THRESHOLD :: real where
  "SETTLE_SPEED_THRESHOLD = 3.0"

definition VOXEL_SIZE :: real where
  "VOXEL_SIZE = 0.45"

text \<open>
  The fields of class \<^verbatim>\<open>MovingVoxel\<close> (server.js:20 and MovingVoxel.js). The string
  \<^verbatim>\<open>id\<close> is built from the clock and one draw of \<^verbatim>\<open>Math.random()\<close>; only the draw
  is kept. The debugging fields \<^verbatim>\<open>velocityHistory\<close> and \<^verbatim>\<open>frameCount\<close> and the
  unused \<^verbatim>\<open>throwerInitialPos\<close> are left out: no control flow reads them.
\<close>

record MovingVoxel =
  pos :: vec3
  vel :: vec3
  lastPos :: vec3
  size :: real
  idDraw :: real
  isProjectile :: bool
  isPlayerVoxel :: bool
  playerId :: "string option"
  hasCollided :: bool
  throwerId :: "string option"
  hasLeftThrowerHitbox :: bool
  framesSinceLaunch :: int

text \<open>
  The constructor \<^verbatim>\<open>new MovingVoxel(pos, dir, isProjectile, throwerId, isPlayerVoxel,
  playerId)\<close>; \<open>r\<close> is the value \<^verbatim>\<open>Math.random()\<close> returns for the id.
\<close>

definition newMovingVoxel ::
  "vec3 \<Rightarrow> vec3 \<Rightarrow> bool \<Rightarrow> string option \<Rightarrow> bool \<Rightarrow> string option \<Rightarrow> real \<Rightarrow> MovingVoxel" where
  "newMovingVoxel p dir isProj thrower isPV pid r =
     (case dir of (d0, d1, d2) \<Rightarrow>
       \<lparr>pos = p, vel = (d0 * 80, d1 * 80, d2 * 80), lastPos = p, size = VOXEL_SIZE, idDraw = r,
        isProjectile = isProj, isPlayerVoxel = isPV, playerId = pid, hasCollided = False,
        throwerId = thrower, hasLeftThrowerHitbox = False, framesSinceLaunch = 0\<rparr>)"

text \<open>\<^verbatim>\<open>checkVoxelToVoxelCollision(otherVoxel)\<close>, MovingVoxel.js (server.js:1401).\<close>

definition checkVoxelToVoxelCollision :: "MovingVoxel \<Rightarrow> MovingVoxel \<Rightarrow> bool" where
  "checkVoxelToVoxelCollision this otherVoxel =
     (case pos this of (p0, p1, p2) \<Rightarrow> case pos otherVoxel of (q0, q1, q2) \<Rightarrow>
      let dx = p0 - q0; dy = p1 - q1; dz = p2 - q2;
          distance = sqrt (dx * dx + dy * dy + dz * dz);
          minDistance = size this + size otherVoxel
      in distance < minDistance)"

text \<open>
  \<^verbatim>\<open>handleVoxelCollision(otherVoxel)\<close>, server.js:130, server.js:1418 and
  game/MovingVoxel.js:158 (the three copies are the same). The two objects are distinct
  (every caller tests \<^verbatim>\<open>otherVoxel !== this\<close> or passes a player cell), and each
  constructor copies its position array, so the two records do not alias; the function
  returns the pair of updated bodies.
\<close>

definition handleVoxelCollision :: "MovingVoxel \<Rightarrow> MovingVoxel \<Rightarrow> MovingVoxel \<times> MovingVoxel" where
  "handleVoxelCollision this otherVoxel =
     (case pos this of (p0, p1, p2) \<Rightarrow> case pos otherVoxel of (q0, q1, q2) \<Rightarrow>
      case vel this of (v0, v1, v2) \<Rightarrow> case vel otherVoxel of (u0, u1, u2) \<Rightarrow>
      let dx = p0 - q0; dy = p1 - q1; dz = p2 - q2;
          distance = sqrt (dx * dx + dy * dy + dz * dz)
      in if distance < 0.001 then (this, otherVoxel)
         else
           let nx = dx / distance; ny = dy / distance; nz = dz / distance;
               overlap = (size this + size otherVoxel) * 2 - distance;
               separation = overlap * 0.51;
               this1 = this\<lparr>pos := (p0 + nx * separation, p1 + ny * separation, p2 + nz * separation)\<rparr>;
               other1 = otherVoxel\<lparr>pos := (q0 - nx * separation, q1 - ny * separation, q2 - nz * separation)\<rparr>;
               relVelX = v0 - u0; relVelY = v1 - u1; relVelZ = v2 - u2;
               velAlongNormal = relVelX * nx + relVelY * ny + relVelZ * nz
           in if velAlongNormal > 0 then (this1, other1)
              else
                let restitution = 0.6;
                    impulseScalar = - (1 + restitution) * velAlongNormal / 2;
                    impulseX = impulseScalar * nx;
                    impulseY = impulseScalar * ny;
                    impulseZ = impulseScalar * nz
                in (this1\<lparr>vel := (v0 + impulseX, v1 + impulseY, v2 + impulseZ)\<rparr>,
                    other1\<lparr>vel := (u0 - impulseX, u1 - impulseY, u2 - impulseZ)\<rparr>))"

text \<open>Component-wise sum and difference of triples, used to state conservation laws.\<close>

definition vadd :: "vec3 \<Rightarrow> vec3 \<Rightarrow> vec3" where
  "vadd a b = (case a of (a0, a1, a2) \<Rightarrow> case b of (b0, b1, b2) \<Rightarrow> (a0 + b0, a1 + b1, a2 + b2))"

definition vsub :: "vec3 \<Rightarrow> vec3 \<Rightarrow> vec3" where
  "vsub a b = (case a of (a0, a1, a2) \<Rightarrow> case b of (b0, b1, b2) \<Rightarrow> (a0 - b0, a1 - b1, a2 - b2))"

definition vneg :: "vec3 \<Rightarrow> vec3" where
  "vneg a = (case a of (a0, a1, a2) \<Rightarrow> (- a0, - a1, - a2))"

definition vdist :: "vec3 \<Rightarrow> vec3 \<Rightarrow> real" where
  "vdist a b = (case a of (a0, a1, a2) \<Rightarrow> case b of (b0, b1, b2) \<Rightarrow>
     sqrt ((a0 - b0) * (a0 - b0) + (a1 - b1) * (a1 - b1) + (a2 - b2) * (a2 - b2)))"

section \<open>Players and the server state\<close>

text \<open>
  The fields of class \<^verbatim>\<open>Player\<close> (Player.js, and server.js:434). \<^verbatim>\<open>keys\<close> is the
  object \<^verbatim>\<open>{w, s, a, d}\<close> of booleans.
\<close>

record Keys =
  key_w :: bool
  key_s :: bool
  key_a :: bool
  key_d :: bool

record Player =
  centerPos :: vec3
  velY :: real
  grounded :: bool
  yaw :: real
  pitch :: real
  keys :: Keys
  bodyVoxels :: "MovingVoxel list"

text \<open>
  The state of \<^verbatim>\<open>VoxelServer\<close> that the physics reads and writes. \<^verbatim>\<open>players\<close> is a
  JavaScript \<^verbatim>\<open>Map\<close>, iterated in insertion order: an association list with the keys
  in that order. \<^verbatim>\<open>terrainFlag\<close> is the property \<^verbatim>\<open>server.terrainNeedsRebuild\<close> that
  the methods of MovingVoxel assign. \<^verbatim>\<open>dirtyMarks\<close> records the calls of
  \<^verbatim>\<open>chunkedMeshGenerator.markPositionDirty(x, z)\<close>, latest first (the mesh generator
  itself is outside the physics). \<^verbatim>\<open>Math.random()\<close> is an input: the sequence
  \<^verbatim>\<open>randoms\<close> of its results and the number \<^verbatim>\<open>drawn\<close> of results consumed.
\<close>

record Server =
  grid :: VoxelWorld
  players :: "(string \<times> Player) list"
  movingVoxels :: "MovingVoxel list"
  meshNeedsUpdate :: bool
  useChunkedMesh :: bool
  dirtyMarks :: "(int \<times> int) list"
  terrainFlag :: bool
  randoms :: "nat \<Rightarrow> real"
  drawn :: nat

definition random :: "Server \<Rightarrow> real \<times> Server" where
  "random s = (randoms s (drawn s), s\<lparr>drawn := drawn s + 1\<rparr>)"

text \<open>\<^verbatim>\<open>VoxelServer.getWorld\<close> and \<^verbatim>\<open>VoxelServer.setWorld\<close>, VoxelServer.js (part_000:2653).\<close>

definition Server_getWorld :: "Server \<Rightarrow> int \<Rightarrow> int \<Rightarrow> int \<Rightarrow> 8 word" where
  "Server_getWorld s x y z = getWorld (grid s) x y z"

definition Server_setWorld :: "Server \<Rightarrow> int \<Rightarrow> int \<Rightarrow> int \<Rightarrow> int \<Rightarrow> bool \<times> Server" where
  "Server_setWorld s x y z val =
     (case VoxelWorld_setWorld (grid s) x y z val of (result, g) \<Rightarrow>
        let s1 = s\<lparr>grid := g\<rparr>
        in if result
           then let s2 = s1\<lparr>meshNeedsUpdate := True\<rparr>
                in (result, if useChunkedMesh s2 then s2\<lparr>dirtyMarks := (x, z) # dirtyMarks s2\<rparr> else s2)
           else (result, s1))"

section \<open>Collision of a moving voxel with the terrain\<close>

text \<open>\<^verbatim>\<open>isPositionValid(x, y, z, server)\<close>, server.js:40 and server.js:1266: fifteen sample
  points, invalid as soon as one of them floors into a solid cell.\<close>

definition isPositionValid :: "MovingVoxel \<Rightarrow> vec3 \<Rightarrow> VoxelWorld \<Rightarrow> bool" where
  "isPositionValid this p w =
     (case p of (x, y, z) \<Rightarrow>
      let s = size this;
          checks = [(x - s, y - s, z - s), (x + s, y - s, z - s),
                    (x - s, y + s, z - s), (x + s, y + s, z - s),
                    (x - s, y - s, z + s), (x + s, y - s, z + s),
                    (x - s, y + s, z + s), (x + s, y + s, z + s),
                    (x, y, z - s), (x, y, z + s),
                    (x, y - s, z), (x, y + s, z),
                    (x - s, y, z), (x + s, y, z),
                    (x, y, z)]
      in list_all (\<lambda>point. case point of (px, py, pz) \<Rightarrow> getWorld w \<lfloor>px\<rfloor> \<lfloor>py\<rfloor> \<lfloor>pz\<rfloor> = 0) checks)"

text \<open>The position \<^verbatim>\<open>startPos + vel * t\<close>.\<close>

definition posAt :: "vec3 \<Rightarrow> vec3 \<Rightarrow> real \<Rightarrow> vec3" where
  "posAt startPos v t =
     (case startPos of (s0, s1, s2) \<Rightarrow> case v of (v0, v1, v2) \<Rightarrow> (s0 + v0 * t, s1 + v1 * t, s2 + v2 * t))"

text \<open>
  One round of the binary search of \<^verbatim>\<open>findCollisionTime\<close>: the loop state is
  \<^verbatim>\<open>(minTime, maxTime, collisionTime)\<close>.
\<close>

definition searchStep :: "MovingVoxel \<Rightarrow> vec3 \<Rightarrow> VoxelWorld \<Rightarrow> nat \<Rightarrow> real \<times> real \<times> real \<Rightarrow> real \<times> real \<times> real" where
  "searchStep this startPos w i st =
     (case st of (minTime, maxTime, collisionTime) \<Rightarrow>
      let testTime = (minTime + maxTime) / 2;
          testPos = posAt startPos (vel this) testTime
      in if isPositionValid this testPos w then (testTime, maxTime, collisionTime)
         else (minTime, testTime, testTime))"

text \<open>\<^verbatim>\<open>findCollisionTime(startPos, endPos, dt, server)\<close>, server.js:62 and server.js:1296;
  \<^verbatim>\<open>null\<close> is \<open>None\<close>.\<close>

definition findCollisionTime :: "MovingVoxel \<Rightarrow> vec3 \<Rightarrow> vec3 \<Rightarrow> real \<Rightarrow> VoxelWorld \<Rightarrow> real option" where
  "findCollisionTime this startPos endPos dt w =
     (if isPositionValid this endPos w then None
      else case fold (searchStep this startPos w) [0..<20] (0, dt, dt) of
             (minTime, maxTime, collisionTime) \<Rightarrow> Some collisionTime)"

text \<open>
  The position a tick's terrain sweep resolves (the first half of \<^verbatim>\<open>update\<close>,
  server.js:213-240 and server.js:1503-1534): the naive end position when no collision
  time is found (or it is not positive), otherwise the position at the collision time
  backed off by 0.001.
\<close>

definition sweepPos :: "MovingVoxel \<Rightarrow> real \<Rightarrow> VoxelWorld \<Rightarrow> vec3" where
  "sweepPos this dt w =
     (let startPos = pos this;
          endPos = posAt (pos this) (vel this) dt
      in case findCollisionTime this startPos endPos dt w of
           None \<Rightarrow> endPos
         | Some collisionTime \<Rightarrow>
             if collisionTime > 0
             then let safeTime = max 0 (collisionTime - 0.001)
                  in posAt startPos (vel this) safeTime
             else endPos)"

text \<open>The gravity step of \<^verbatim>\<open>update\<close>: \<^verbatim>\<open>this.vel[1] -= GRAVITY * dt\<close>.\<close>

definition applyGravity :: "MovingVoxel \<Rightarrow> real \<Rightarrow> MovingVoxel" where
  "applyGravity this dt = (case vel this of (v0, v1, v2) \<Rightarrow> this\<lparr>vel := (v0, v1 - GRAVITY * dt, v2)\<rparr>)"

text \<open>\<^verbatim>\<open>Math.sqrt(vel[0]**2 + vel[1]**2 + vel[2]**2)\<close>.\<close>

definition speedOf :: "MovingVoxel \<Rightarrow> real" where
  "speedOf this = (case vel this of (v0, v1, v2) \<Rightarrow> sqrt (v0\<^sup>2 + v1\<^sup>2 + v2\<^sup>2))"

text \<open>The validity test along the segment of one tick, as a predicate of the time.\<close>

definition validAt :: "MovingVoxel \<Rightarrow> vec3 \<Rightarrow> VoxelWorld \<Rightarrow> real \<Rightarrow> bool" where
  "validAt this startPos w t = isPositionValid this (posAt startPos (vel this) t) w"

section \<open>Impact, destruction and settling\<close>

text \<open>Reading and writing \<^verbatim>\<open>v[i]\<close> for an index \<open>i\<close> of 0, 1 or 2.\<close>

definition vget :: "vec3 \<Rightarrow> nat \<Rightarrow> real" where
  "vget v i = (case v of (v0, v1, v2) \<Rightarrow> if i = 0 then v0 else if i = 1 then v1 else v2)"

definition vset :: "vec3 \<Rightarrow> nat \<Rightarrow> real \<Rightarrow> vec3" where
  "vset v i r = (case v of (v0, v1, v2) \<Rightarrow>
     if i = 0 then (r, v1, v2) else if i = 1 then (v0, r, v2) else (v0, v1, r))"

text \<open>The object \<^verbatim>\<open>{ block: [xi, yi, zi], axis: axis }\<close> that \<^verbatim>\<open>getCollisionInfo\<close> returns.\<close>

record Collision =
  block :: "int \<times> int \<times> int"
  axis :: nat

text \<open>
  \<^verbatim>\<open>getCollisionInfo(x, y, z, server)\<close>, MovingVoxel.js (server.js:1327). The running
  minimum starts at \<^verbatim>\<open>Infinity\<close>, here \<open>None\<close>.
\<close>

definition getCollisionInfo :: "MovingVoxel \<Rightarrow> vec3 \<Rightarrow> VoxelWorld \<Rightarrow> Collision option" where
  "getCollisionInfo this p w =
     (case p of (x, y, z) \<Rightarrow>
      let s = size this;
          centerBlockX = \<lfloor>x\<rfloor>; centerBlockY = \<lfloor>y\<rfloor>; centerBlockZ = \<lfloor>z\<rfloor>;
          collisionBlock =
            (if getWorld w centerBlockX centerBlockY centerBlockZ \<noteq> 0
             then Some (centerBlockX, centerBlockY, centerBlockZ)
             else
               let checks = [(\<lfloor>x - s\<rfloor>, \<lfloor>y\<rfloor>, \<lfloor>z\<rfloor>), (\<lfloor>x + s\<rfloor>, \<lfloor>y\<rfloor>, \<lfloor>z\<rfloor>),
                             (\<lfloor>x\<rfloor>, \<lfloor>y - s\<rfloor>, \<lfloor>z\<rfloor>), (\<lfloor>x\<rfloor>, \<lfloor>y + s\<rfloor>, \<lfloor>z\<rfloor>),
                             (\<lfloor>x\<rfloor>, \<lfloor>y\<rfloor>, \<lfloor>z - s\<rfloor>), (\<lfloor>x\<rfloor>, \<lfloor>y\<rfloor>, \<lfloor>z + s\<rfloor>)]
               in fst (fold (\<lambda>check st. case check of (xi, yi, zi) \<Rightarrow> case st of (found, minDistance) \<Rightarrow>
                        if getWorld w xi yi zi \<noteq> 0
                        then let blockCenterX = real_of_int xi + 0.5;
                                 blockCenterY = real_of_int yi + 0.5;
                                 blockCenterZ = real_of_int zi + 0.5;
                                 dist = sqrt ((x - blockCenterX)\<^sup>2 + (y - blockCenterY)\<^sup>2 + (z - blockCenterZ)\<^sup>2)
                             in if (case minDistance of None \<Rightarrow> True | Some m \<Rightarrow> dist < m)
                                then (Some (xi, yi, zi), Some dist) else st
                        else st)
                      checks (None, None)))
      in case collisionBlock of
           None \<Rightarrow> None
         | Some (bx, by, bz) \<Rightarrow>
             let leftOverlap = max 0 ((real_of_int bx + 0.5) - (x - s));
                 rightOverlap = max 0 ((x + s) - (real_of_int bx + 0.5));
                 bottomOverlap = max 0 ((real_of_int by + 0.5) - (y - s));
                 topOverlap = max 0 ((y + s) - (real_of_int by + 0.5));
                 backOverlap = max 0 ((real_of_int bz + 0.5) - (z - s));
                 frontOverlap = max 0 ((z + s) - (real_of_int bz + 0.5));
                 maxOverlap = max leftOverlap (max rightOverlap (max bottomOverlap
                                (max topOverlap (max backOverlap frontOverlap))));
                 ax = (if maxOverlap = topOverlap \<or> maxOverlap = bottomOverlap then 1
                       else if maxOverlap = frontOverlap \<or> maxOverlap = backOverlap then 2
                       else 0)
             in Some \<lparr>block = (bx, by, bz), axis = ax\<rparr>)"

text \<open>
  The body of the innermost loop of \<^verbatim>\<open>createDestruction\<close> at the offset
  \<open>(dx, dy, dz)\<close>, MovingVoxel.js (server.js:1832-1877); server.js:342-374 is the same
  without the chunk marking. \<^verbatim>\<open>Math.random()\<close> is drawn only when the cell is solid, inside
  the radius and farther than 0.5 from the impact; the constructor of the debris draws once
  more for its id. The counter \<^verbatim>\<open>dislodged\<close> is only logged and is left out.
\<close>

definition destroyStep :: "MovingVoxel \<Rightarrow> int \<Rightarrow> int \<Rightarrow> int \<Rightarrow> real \<Rightarrow> int \<times> int \<times> int \<Rightarrow> Server \<Rightarrow> Server" where
  "destroyStep this xi yi zi speed d srv =
     (case d of (dx, dy, dz) \<Rightarrow>
      let radius = 3;
          blockPos0 = xi + dx; blockPos1 = yi + dy; blockPos2 = zi + dz;
          dist = sqrt (real_of_int (dx * dx + dy * dy + dz * dz))
      in if dist \<le> radius \<and> Server_getWorld srv blockPos0 blockPos1 blockPos2 \<noteq> 0
         then
           let forceRatio = max 0 (1 - dist / radius)
           in if dist > 0.5
              then case random srv of (r, srv1) \<Rightarrow>
                if r < forceRatio * 0.7
                then
                  let blockCenter = (real_of_int blockPos0 + 0.5, real_of_int blockPos1 + 0.5,
                                     real_of_int blockPos2 + 0.5);
                      directionX = (real_of_int blockPos0 + 0.5) - (real_of_int xi + 0.5);
                      directionY = (real_of_int blockPos1 + 0.5) - (real_of_int yi + 0.5);
                      directionZ = (real_of_int blockPos2 + 0.5) - (real_of_int zi + 0.5);
                      dirLength = sqrt (directionX\<^sup>2 + directionY\<^sup>2 + directionZ\<^sup>2)
                  in if dirLength > 0
                     then
                       let normDirX = directionX / dirLength;
                           normDirY = directionY / dirLength;
                           normDirZ = directionZ / dirLength;
                           velocityTransfer = speed * forceRatio * 0.8;
                           newVelX = normDirX * velocityTransfer + vget (vel this) 0 * 0.3;
                           newVelY = normDirY * velocityTransfer + vget (vel this) 1 * 0.3 + 8;
                           newVelZ = normDirZ * velocityTransfer + vget (vel this) 2 * 0.3
                       in case random srv1 of (idr, srv2) \<Rightarrow>
                          let dislodgedVoxel =
                                (newMovingVoxel blockCenter (0, 0, 0) False None False None idr)
                                  \<lparr>vel := (newVelX, newVelY, newVelZ)\<rparr>;
                              srv3 = srv2\<lparr>movingVoxels := movingVoxels srv2 @ [dislodgedVoxel]\<rparr>;
                              srv4 = snd (Server_setWorld srv3 blockPos0 blockPos1 blockPos2 0);
                              srv5 = srv4\<lparr>terrainFlag := True\<rparr>
                          in if useChunkedMesh srv5
                             then srv5\<lparr>dirtyMarks := (blockPos0, blockPos2) # dirtyMarks srv5\<rparr>
                             else srv5
                     else srv1
                else srv1
              else srv
         else srv)"

text \<open>The offsets of the three nested loops, in the order the loops visit them.\<close>

definition cubeOffsets :: "int \<Rightarrow> (int \<times> int \<times> int) list" where
  "cubeOffsets radius =
     concat (map (\<lambda>dx. concat (map (\<lambda>dy. map (\<lambda>dz. (dx, dy, dz)) (loopRange (- radius) (radius + 1)))
                                 (loopRange (- radius) (radius + 1))))
                 (loopRange (- radius) (radius + 1)))"

text \<open>\<^verbatim>\<open>createDestruction(xi, yi, zi, speed, server)\<close>: the latch, then the loops.\<close>

definition createDestruction :: "MovingVoxel \<Rightarrow> int \<Rightarrow> int \<Rightarrow> int \<Rightarrow> real \<Rightarrow> Server \<Rightarrow> MovingVoxel \<times> Server" where
  "createDestruction this xi yi zi speed srv =
     (let this1 = this\<lparr>hasCollided := True\<rparr>
      in (this1, fold (destroyStep this1 xi yi zi speed) (cubeOffsets 3) srv))"

text \<open>\<^verbatim>\<open>handleCollision(collision, server)\<close>, server.js:313 and server.js:1796.\<close>

definition handleCollision :: "MovingVoxel \<Rightarrow> Collision \<Rightarrow> Server \<Rightarrow> MovingVoxel \<times> Server" where
  "handleCollision this collision srv =
     (case block collision of (xi, yi, zi) \<Rightarrow>
      let ax = axis collision;
          restitution = (if isProjectile this then 0.4 else 0.2);
          friction = (if isProjectile this then 0.8 else 0.9);
          v = vel this;
          v' = (if \<bar>vget v ax\<bar> > 2
                then fold (\<lambda>i u. if i \<noteq> ax \<and> i \<noteq> 1 then vset u i (vget u i * friction) else u)
                       [0, 1, 2] (vset v ax (vget v ax * - restitution))
                else vset v ax 0);
          this1 = this\<lparr>vel := v'\<rparr>;
          speed = speedOf this1
      in if speed > 15 \<and> \<not> hasCollided this1 \<and> isProjectile this1
         then createDestruction this1 xi yi zi speed srv
         else (this1, srv))"

text \<open>\<^verbatim>\<open>Math.round\<close> rounds to the nearest integer, halves upwards.\<close>

definition js_round :: "real \<Rightarrow> int" where
  "js_round x = \<lfloor>x + 1 / 2\<rfloor>"

text \<open>
  The candidates of one shell of \<^verbatim>\<open>findClosestEmptyPosition\<close>, in the order the loops
  push them: the in-bounds empty cells at Chebyshev distance \<open>radius\<close> from the target,
  each with its Euclidean distance.
\<close>

definition shellCandidates :: "VoxelWorld \<Rightarrow> int \<Rightarrow> int \<Rightarrow> int \<Rightarrow> int \<Rightarrow> ((int \<times> int \<times> int) \<times> real) list" where
  "shellCandidates w targetX targetY targetZ radius =
     concat (map (\<lambda>d. case d of (dx, dy, dz) \<Rightarrow>
        if \<bar>dx\<bar> = radius \<or> \<bar>dy\<bar> = radius \<or> \<bar>dz\<bar> = radius
        then let x = targetX + dx; y = targetY + dy; z = targetZ + dz
             in if x \<ge> 0 \<and> x < WORLD_SIZE \<and> y \<ge> 0 \<and> y < WORLD_SIZE \<and> z \<ge> 0 \<and> z < WORLD_SIZE
                   \<and> getWorld w x y z = 0
                then [((x, y, z), sqrt (real_of_int (dx * dx + dy * dy + dz * dz)))]
                else []
        else []) (cubeOffsets radius))"

text \<open>
  The loop over the radii, leaving at the first shell with a candidate.
  \<^verbatim>\<open>candidates.sort((a, b) => a.distance - b.distance)\<close> is a stable sort on the distance.
\<close>

fun searchShells :: "VoxelWorld \<Rightarrow> int \<Rightarrow> int \<Rightarrow> int \<Rightarrow> int list \<Rightarrow> (int \<times> int \<times> int) option" where
  "searchShells w targetX targetY targetZ [] = None"
| "searchShells w targetX targetY targetZ (radius # radii) =
     (case sort_key snd (shellCandidates w targetX targetY targetZ radius) of
        c # _ \<Rightarrow> Some (fst c)
      | [] \<Rightarrow> searchShells w targetX targetY targetZ radii)"

text \<open>\<^verbatim>\<open>findClosestEmptyPosition(targetX, targetY, targetZ, server, maxRadius = 4)\<close>,
  server.js:399 and server.js:1915.\<close>

definition findClosestEmptyPosition :: "VoxelWorld \<Rightarrow> int \<Rightarrow> int \<Rightarrow> int \<Rightarrow> int \<Rightarrow> (int \<times> int \<times> int) option" where
  "findClosestEmptyPosition w targetX targetY targetZ maxRadius =
     (if targetX \<ge> 0 \<and> targetX < WORLD_SIZE \<and> targetY \<ge> 0 \<and> targetY < WORLD_SIZE
         \<and> targetZ \<ge> 0 \<and> targetZ < WORLD_SIZE \<and> getWorld w targetX targetY targetZ = 0
      then Some (targetX, targetY, targetZ)
      else searchShells w targetX targetY targetZ (loopRange 1 (maxRadius + 1)))"

text \<open>What \<^verbatim>\<open>update\<close> returns: \<^verbatim>\<open>'continue'\<close>, \<^verbatim>\<open>'settled'\<close> or \<^verbatim>\<open>'kill_projectile'\<close>.\<close>

datatype tickResult = Continue | Settled | KillProjectile

text \<open>\<^verbatim>\<open>settleToGrid(server)\<close>, MovingVoxel.js (server.js:1889); server.js:383 is the same
  without the chunk marking.\<close>

definition settleToGrid :: "MovingVoxel \<Rightarrow> Server \<Rightarrow> tickResult \<times> Server" where
  "settleToGrid this srv =
     (case pos this of (p0, p1, p2) \<Rightarrow>
      let targetX = js_round (p0 - 0.5);
          targetY = js_round (p1 - 0.5);
          targetZ = js_round (p2 - 0.5)
      in case findClosestEmptyPosition (grid srv) targetX targetY targetZ 4 of
           Some (gridX, gridY, gridZ) \<Rightarrow>
             let srv1 = snd (Server_setWorld srv gridX gridY gridZ 1);
                 srv2 = srv1\<lparr>terrainFlag := True\<rparr>
             in (Settled, if useChunkedMesh srv2
                          then srv2\<lparr>dirtyMarks := (gridX, gridZ) # dirtyMarks srv2\<rparr>
                          else srv2)
         | None \<Rightarrow> (Continue, srv))"

text \<open>\<^verbatim>\<open>array.splice(i, 1)\<close>: the array without its element at index \<open>i\<close>.\<close>

definition splice1 :: "nat \<Rightarrow> 'a list \<Rightarrow> 'a list" where
  "splice1 i xs = take i xs @ drop (Suc i) xs"

text \<open>
  What the loop of \<^verbatim>\<open>updateMovingVoxels\<close> (VoxelServer.js, part_000:2514) does with the
  result of \<^verbatim>\<open>voxel.update\<close> for the voxel at index \<open>i\<close>.
\<close>

definition removeFinished :: "tickResult \<Rightarrow> nat \<Rightarrow> Server \<Rightarrow> Server" where
  "removeFinished result i srv =
     (if result = Settled then srv\<lparr>movingVoxels := splice1 i (movingVoxels srv)\<rparr>
      else if result = KillProjectile then srv\<lparr>movingVoxels := splice1 i (movingVoxels srv)\<rparr>
      else srv)"

text \<open>
  Notions used to state where a body settles: the target cell \<^verbatim>\<open>round(pos - 0.5)\<close>, an
  empty in-bounds cell, and the Chebyshev (shell) and Euclidean distances of a cell from
  the target.
\<close>

definition settleTarget :: "MovingVoxel \<Rightarrow> int \<times> int \<times> int" where
  "settleTarget this = (case pos this of (p0, p1, p2) \<Rightarrow>
     (js_round (p0 - 0.5), js_round (p1 - 0.5), js_round (p2 - 0.5)))"

definition cellAt :: "VoxelWorld \<Rightarrow> int \<times> int \<times> int \<Rightarrow> 8 word" where
  "cellAt w c = (case c of (x, y, z) \<Rightarrow> getWorld w x y z)"

definition emptyCell :: "VoxelWorld \<Rightarrow> int \<times> int \<times> int \<Rightarrow> bool" where
  "emptyCell w c = (inGrid c \<and> cellAt w c = 0)"

definition cheb :: "int \<times> int \<times> int \<Rightarrow> int \<times> int \<times> int \<Rightarrow> int" where
  "cheb t c = (case t of (tx, ty, tz) \<Rightarrow> case c of (x, y, z) \<Rightarrow>
     max \<bar>x - tx\<bar> (max \<bar>y - ty\<bar> \<bar>z - tz\<bar>))"

definition eucl :: "int \<times> int \<times> int \<Rightarrow> int \<times> int \<times> int \<Rightarrow> real" where
  "eucl t c = (case t of (tx, ty, tz) \<Rightarrow> case c of (x, y, z) \<Rightarrow>
     sqrt (real_of_int ((x - tx) * (x - tx) + (y - ty) * (y - ty) + (z - tz) * (z - tz))))"

text \<open>The candidates that one offset of the shell loop contributes.\<close>

definition shellEntry :: "VoxelWorld \<Rightarrow> int \<Rightarrow> int \<Rightarrow> int \<Rightarrow> int \<Rightarrow> int \<times> int \<times> int \<Rightarrow> ((int \<times> int \<times> int) \<times> real) list" where
  "shellEntry w targetX targetY targetZ radius d =
     (case d of (dx, dy, dz) \<Rightarrow>
        if \<bar>dx\<bar> = radius \<or> \<bar>dy\<bar> = radius \<or> \<bar>dz\<bar> = radius
        then let x = targetX + dx; y = targetY + dy; z = targetZ + dz
             in if x \<ge> 0 \<and> x < WORLD_SIZE \<and> y \<ge> 0 \<and> y < WORLD_SIZE \<and> z \<ge> 0 \<and> z < WORLD_SIZE
                   \<and> getWorld w x y z = 0
                then [((x, y, z), sqrt (real_of_int (dx * dx + dy * dy + dz * dz)))]
                else []
        else [])"


text \<open>
  Notions used to state what a destruction does: a debris body (neither projectile nor
  player cell), the cell at an offset from the impact cell, the distance of an offset,
  the number of solid cells of the radius-3 sphere around the impact cell, and the centre
  of a cell.
\<close>

definition isDebris :: "MovingVoxel \<Rightarrow> bool" where
  "isDebris v = (\<not> isProjectile v \<and> \<not> isPlayerVoxel v)"

definition offsetCell :: "int \<times> int \<times> int \<Rightarrow> int \<times> int \<times> int \<Rightarrow> int \<times> int \<times> int" where
  "offsetCell c d = (case c of (xi, yi, zi) \<Rightarrow> case d of (dx, dy, dz) \<Rightarrow> (xi + dx, yi + dy, zi + dz))"

definition offsetDist :: "int \<times> int \<times> int \<Rightarrow> real" where
  "offsetDist d = (case d of (dx, dy, dz) \<Rightarrow> sqrt (real_of_int (dx * dx + dy * dy + dz * dz)))"

definition sphereSolidCount :: "VoxelWorld \<Rightarrow> int \<times> int \<times> int \<Rightarrow> nat" where
  "sphereSolidCount w c =
     length (filter (\<lambda>d. offsetDist d \<le> 3 \<and> cellAt w (offsetCell c d) \<noteq> 0) (cubeOffsets 3))"

definition cellCentre :: "int \<times> int \<times> int \<Rightarrow> vec3" where
  "cellCentre c = (case c of (x, y, z) \<Rightarrow> (real_of_int x + 0.5, real_of_int y + 0.5, real_of_int z + 0.5))"

text \<open>A solid cell of the sphere, an offset other than the impact cell itself, and the
  invariant of the destruction loop over a list of offsets: the bodies appended and the cells changed.\<close>

definition solidInBall :: "VoxelWorld \<Rightarrow> int \<times> int \<times> int \<Rightarrow> int \<times> int \<times> int \<Rightarrow> bool" where
  "solidInBall w c d = (offsetDist d \<le> 3 \<and> cellAt w (offsetCell c d) \<noteq> 0)"

definition farOffset :: "int \<times> int \<times> int \<Rightarrow> bool" where
  "farOffset d = (0.5 < offsetDist d)"

definition destroyed :: "int \<times> int \<times> int \<Rightarrow> (int \<times> int \<times> int) list \<Rightarrow> Server \<Rightarrow> Server \<Rightarrow> MovingVoxel list \<Rightarrow> bool" where
  "destroyed c ds srv srv' new =
     (movingVoxels srv' = movingVoxels srv @ new \<and> list_all isDebris new
      \<and> length new \<le> length (filter (solidInBall (grid srv) c) ds)
      \<and> (\<forall>v \<in> set new. \<exists>d \<in> set ds. farOffset d \<and> pos v = cellCentre (offsetCell c d)
             \<and> cellAt (grid srv) (offsetCell c d) \<noteq> 0 \<and> cellAt (grid srv') (offsetCell c d) = 0)
      \<and> (\<forall>e. cellAt (grid srv') e \<noteq> cellAt (grid srv) e \<longrightarrow>
             cellAt (grid srv') e = 0 \<and> (\<exists>d \<in> set ds. farOffset d \<and> e = offsetCell c d)))"


text \<open>
  The velocity that the destruction loop gives the body dislodged at the offset \<open>d\<close>
  (server.js:1851-1859), for the velocity \<open>u\<close> of the projectile after its bounce and
  the speed \<open>speed\<close> passed to \<^verbatim>\<open>createDestruction\<close>.
\<close>

definition debrisVelocity :: "vec3 \<Rightarrow> real \<Rightarrow> int \<times> int \<times> int \<Rightarrow> vec3" where
  "debrisVelocity u speed d =
     (case d of (dx, dy, dz) \<Rightarrow>
      let dist = offsetDist d;
          velocityTransfer = speed * max 0 (1 - dist / 3) * 0.8
      in (real_of_int dx / dist * velocityTransfer + vget u 0 * 0.3,
          real_of_int dy / dist * velocityTransfer + vget u 1 * 0.3 + 8,
          real_of_int dz / dist * velocityTransfer + vget u 2 * 0.3))"

section \<open>Player physics\<close>

definition MOVE_SPEED :: real where
  "MOVE_SPEED = 15.0"

definition JUMP_SPEED :: real where
  "JUMP_SPEED = 18.0"

definition PLAYER_HALF_WIDTH :: real where
  "PLAYER_HALF_WIDTH = 8"

definition PLAYER_HALF_HEIGHT :: real where
  "PLAYER_HALF_HEIGHT = 16"

definition STEP_HEIGHT :: int where
  "STEP_HEIGHT = 6"

text \<open>\<^verbatim>\<open>getCenterPosition()\<close>, Player.js (part_000:78) and server.js:473: the mean of the
  positions of the remaining cells, summed in the order of the array.\<close>

definition getCenterPosition :: "Player \<Rightarrow> vec3" where
  "getCenterPosition p =
     (if length (bodyVoxels p) = 0 then centerPos p
      else case fold (\<lambda>voxel acc. case acc of (sumX, sumY, sumZ) \<Rightarrow> case pos voxel of (v0, v1, v2) \<Rightarrow>
                        (sumX + v0, sumY + v1, sumZ + v2)) (bodyVoxels p) (0, 0, 0) of
             (sumX, sumY, sumZ) \<Rightarrow>
               (sumX / real (length (bodyVoxels p)), sumY / real (length (bodyVoxels p)),
                sumZ / real (length (bodyVoxels p))))"

text \<open>The loops \<^verbatim>\<open>for (const voxel of this.bodyVoxels) voxel.pos[k] += delta\<close>.\<close>

definition shiftVoxels :: "vec3 \<Rightarrow> MovingVoxel list \<Rightarrow> MovingVoxel list" where
  "shiftVoxels delta vs =
     map (\<lambda>voxel. case pos voxel of (v0, v1, v2) \<Rightarrow> case delta of (d0, d1, d2) \<Rightarrow>
            voxel\<lparr>pos := (v0 + d0, v1 + d1, v2 + d2)\<rparr>) vs"

text \<open>
  The first block of \<^verbatim>\<open>Player.updatePhysics\<close> in Player.js (part_000:106-127): the
  center follows the mean of the remaining cells, by at most \<^verbatim>\<open>maxCenterShift\<close>.
\<close>

definition smoothCenter :: "Player \<Rightarrow> Player" where
  "smoothCenter p =
     (case centerPos p of (c0, c1, c2) \<Rightarrow>
      case getCenterPosition p of (n0, n1, n2) \<Rightarrow>
      let maxCenterShift = 2.0;
          dx = n0 - c0; dy = n1 - c1; dz = n2 - c2;
          shiftMagnitude = sqrt (dx * dx + dy * dy + dz * dz)
      in if shiftMagnitude \<le> maxCenterShift then p\<lparr>centerPos := (n0, n1, n2)\<rparr>
         else let smoothingFactor = maxCenterShift / shiftMagnitude
              in p\<lparr>centerPos := (c0 + dx * smoothingFactor, c1 + dy * smoothingFactor,
                                  c2 + dz * smoothingFactor)\<rparr>)"

text \<open>The ground level under the center, as \<^verbatim>\<open>checkGroundCollision\<close> and
  \<^verbatim>\<open>stickToGround\<close> compute it (the read of the height array is guarded).\<close>

definition groundY :: "VoxelWorld \<Rightarrow> Player \<Rightarrow> real" where
  "groundY w p =
     (case centerPos p of (c0, c1, c2) \<Rightarrow>
      let cx_i = \<lfloor>c0\<rfloor>; cz_i = \<lfloor>c2\<rfloor>
      in real_of_int (WORLD_SIZE div 4
           + (if cx_i \<ge> 0 \<and> cx_i < WORLD_SIZE \<and> cz_i \<ge> 0 \<and> cz_i < WORLD_SIZE
              then sint (heights w (cx_i + cz_i * WORLD_SIZE)) else 0)))"

text \<open>\<^verbatim>\<open>checkGroundCollision(server)\<close>, part_000:170.\<close>

definition checkGroundCollision :: "VoxelWorld \<Rightarrow> Player \<Rightarrow> Player" where
  "checkGroundCollision w p =
     (case centerPos p of (c0, c1, c2) \<Rightarrow>
      let g = groundY w p
      in if c1 \<le> g + PLAYER_HALF_HEIGHT
         then let correction = g + PLAYER_HALF_HEIGHT - c1
              in p\<lparr>centerPos := (c0, g + PLAYER_HALF_HEIGHT, c2),
                   bodyVoxels := shiftVoxels (0, correction, 0) (bodyVoxels p),
                   grounded := True, velY := 0.0\<rparr>
         else p)"

text \<open>\<^verbatim>\<open>stickToGround(server)\<close>, part_000:197.\<close>

definition stickToGround :: "VoxelWorld \<Rightarrow> Player \<Rightarrow> Player" where
  "stickToGround w p =
     (case centerPos p of (c0, c1, c2) \<Rightarrow>
      let g = groundY w p
      in if c1 > g + PLAYER_HALF_HEIGHT + 1 then p\<lparr>grounded := False\<rparr>
         else let correction = g + PLAYER_HALF_HEIGHT - c1
              in p\<lparr>centerPos := (c0, g + PLAYER_HALF_HEIGHT, c2),
                   bodyVoxels := shiftVoxels (0, correction, 0) (bodyVoxels p)\<rparr>)"

text \<open>\<^verbatim>\<open>updateVerticalPhysics(dt, server)\<close>, part_000:147.\<close>

definition updateVerticalPhysics :: "real \<Rightarrow> VoxelWorld \<Rightarrow> Player \<Rightarrow> Player" where
  "updateVerticalPhysics dt w p =
     (if \<not> grounded p
      then let vY = velY p - GRAVITY * dt;
               deltaY = vY * dt
           in case centerPos p of (c0, c1, c2) \<Rightarrow>
                checkGroundCollision w
                  (p\<lparr>velY := vY, bodyVoxels := shiftVoxels (0, deltaY, 0) (bodyVoxels p),
                     centerPos := (c0, c1 + deltaY, c2)\<rparr>)
      else stickToGround w p)"

text \<open>\<^verbatim>\<open>getCameraDirection\<close> and \<^verbatim>\<open>getCameraRight\<close>, MathUtils.js (part_001:170).\<close>

definition getCameraDirection :: "real \<Rightarrow> real \<Rightarrow> vec3" where
  "getCameraDirection yw ptch = (cos ptch * sin yw, sin ptch, cos ptch * cos yw)"

definition getCameraRight :: "real \<Rightarrow> real \<Rightarrow> vec3" where
  "getCameraRight yw ptch =
     (case getCameraDirection yw ptch of (camDir0, camDir1, camDir2) \<Rightarrow>
      let worldUp0 = 0; worldUp1 = 1; worldUp2 = 0;
          camRight0 = camDir1 * worldUp2 - camDir2 * worldUp1;
          camRight1 = camDir2 * worldUp0 - camDir0 * worldUp2;
          camRight2 = camDir0 * worldUp1 - camDir1 * worldUp0;
          rightLen = sqrt (camRight0 * camRight0 + camRight1 * camRight1 + camRight2 * camRight2)
      in if rightLen > 0 then (camRight0 / rightLen, camRight1 / rightLen, camRight2 / rightLen)
         else (camRight0, camRight1, camRight2))"

text \<open>
  An unguarded read \<^verbatim>\<open>heights[i]\<close> of the \<^verbatim>\<open>Int32Array\<close>: outside the array it is
  \<^verbatim>\<open>undefined\<close>, here \<open>None\<close>.
\<close>

definition heightsAt :: "VoxelWorld \<Rightarrow> int \<Rightarrow> int option" where
  "heightsAt w i = (if 0 \<le> i \<and> i < WORLD_SIZE * WORLD_SIZE then Some (sint (heights w i)) else None)"

text \<open>
  \<^verbatim>\<open>canMoveTo(deltaX, deltaZ, server)\<close>, part_000:262. When the current column is outside
  the array the difference is \<^verbatim>\<open>NaN\<close> and the comparison with \<^verbatim>\<open>STEP_HEIGHT\<close> is false.
\<close>

definition canMoveTo :: "real \<Rightarrow> real \<Rightarrow> VoxelWorld \<Rightarrow> Player \<Rightarrow> bool" where
  "canMoveTo deltaX deltaZ w p =
     (case centerPos p of (c0, c1, c2) \<Rightarrow>
      let target_x = c0 + deltaX; target_z = c2 + deltaZ;
          tx = \<lfloor>target_x\<rfloor>; tz = \<lfloor>target_z\<rfloor>;
          cxi = \<lfloor>c0\<rfloor>; czi = \<lfloor>c2\<rfloor>
      in if tx < 0 \<or> tx \<ge> WORLD_SIZE \<or> tz < 0 \<or> tz \<ge> WORLD_SIZE then False
         else case heightsAt w (cxi + czi * WORLD_SIZE) of
                None \<Rightarrow> False
              | Some currentHeight \<Rightarrow>
                  (case heightsAt w (tx + tz * WORLD_SIZE) of
                     None \<Rightarrow> False
                   | Some targetHeight \<Rightarrow>
                       let heightDiff = targetHeight - currentHeight
                       in heightDiff \<le> STEP_HEIGHT))"

text \<open>
  The movement of one tick that the keys ask for: \<open>None\<close> when the summed direction has
  length 0, otherwise \<^verbatim>\<open>(deltaX, deltaZ)\<close> (part_000:225-242).
\<close>

definition movementDelta :: "real \<Rightarrow> Player \<Rightarrow> (real \<times> real) option" where
  "movementDelta dt p =
     (case getCameraDirection (yaw p) (pitch p) of (camDir0, camDir1, camDir2) \<Rightarrow>
      case getCameraRight (yaw p) (pitch p) of (camRight0, camRight1, camRight2) \<Rightarrow>
      let m0 = 0; m2 = 0;
          m0 = (if key_w (keys p) then m0 + camDir0 else m0);
          m2 = (if key_w (keys p) then m2 + camDir2 else m2);
          m0 = (if key_s (keys p) then m0 - camDir0 else m0);
          m2 = (if key_s (keys p) then m2 - camDir2 else m2);
          m0 = (if key_a (keys p) then m0 - camRight0 else m0);
          m2 = (if key_a (keys p) then m2 - camRight2 else m2);
          m0 = (if key_d (keys p) then m0 + camRight0 else m0);
          m2 = (if key_d (keys p) then m2 + camRight2 else m2);
          len = sqrt (m0 * m0 + m2 * m2)
      in if len > 0
         then Some ((m0 / len) * MOVE_SPEED * dt, (m2 / len) * MOVE_SPEED * dt)
         else None)"

text \<open>\<^verbatim>\<open>updateHorizontalMovement(dt, server)\<close>, part_000:223; server.js:539-589 is the same
  code written inline.\<close>

definition updateHorizontalMovement :: "real \<Rightarrow> VoxelWorld \<Rightarrow> Player \<Rightarrow> Player" where
  "updateHorizontalMovement dt w p =
     (case movementDelta dt p of
        None \<Rightarrow> p
      | Some (deltaX, deltaZ) \<Rightarrow>
          if canMoveTo deltaX deltaZ w p
          then case centerPos p of (c0, c1, c2) \<Rightarrow>
                 p\<lparr>centerPos := (c0 + deltaX, c1, c2 + deltaZ),
                   bodyVoxels := shiftVoxels (deltaX, 0, deltaZ) (bodyVoxels p)\<rparr>
          else p)"

text \<open>\<^verbatim>\<open>enforceBoundaries()\<close>, part_000:282.\<close>

definition enforceBoundaries :: "Player \<Rightarrow> Player" where
  "enforceBoundaries p =
     (case centerPos p of (c0, c1, c2) \<Rightarrow>
      let margin = PLAYER_HALF_WIDTH / 16;
          oldX = c0; oldZ = c2;
          n0 = max margin (min (real_of_int WORLD_SIZE - margin) c0);
          n2 = max margin (min (real_of_int WORLD_SIZE - margin) c2);
          boundaryDeltaX = n0 - oldX;
          boundaryDeltaZ = n2 - oldZ;
          p1 = p\<lparr>centerPos := (n0, c1, n2)\<rparr>
      in if boundaryDeltaX \<noteq> 0 \<or> boundaryDeltaZ \<noteq> 0
         then p1\<lparr>bodyVoxels := shiftVoxels (boundaryDeltaX, 0, boundaryDeltaZ) (bodyVoxels p1)\<rparr>
         else p1)"

text \<open>\<^verbatim>\<open>Player.updatePhysics(dt, server)\<close> of Player.js (part_000:100): the result is whether
  the center moved, and the player.\<close>

definition updatePhysics :: "real \<Rightarrow> VoxelWorld \<Rightarrow> Player \<Rightarrow> bool \<times> Player" where
  "updatePhysics dt w p =
     (if length (bodyVoxels p) = 0 then (False, p)
      else let oldCenter = centerPos p;
               p1 = smoothCenter p;
               p2 = updateVerticalPhysics dt w p1;
               p3 = updateHorizontalMovement dt w p2;
               p4 = enforceBoundaries p3
           in (oldCenter \<noteq> centerPos p4, p4))"

text \<open>
  \<^verbatim>\<open>Player.updatePhysics(dt, server)\<close> of the single-file server (server.js:490): the
  center is assigned the mean of the remaining cells directly; the vertical physics, the
  horizontal movement and the boundary clamp that follow are the statements of the three
  methods above, written inline.
\<close>

definition mono_updatePhysics :: "real \<Rightarrow> VoxelWorld \<Rightarrow> Player \<Rightarrow> bool \<times> Player" where
  "mono_updatePhysics dt w p =
     (if length (bodyVoxels p) = 0 then (False, p)
      else let oldCenter = centerPos p;
               p1 = p\<lparr>centerPos := getCenterPosition p\<rparr>;
               p2 = updateVerticalPhysics dt w p1;
               p3 = updateHorizontalMovement dt w p2;
               p4 = enforceBoundaries p3
           in (oldCenter \<noteq> centerPos p4, p4))"

text \<open>\<^verbatim>\<open>jump()\<close>, part_000:305.\<close>

definition jump :: "Player \<Rightarrow> Player" where
  "jump p = (if grounded p then p\<lparr>velY := JUMP_SPEED, grounded := False\<rparr> else p)"

text \<open>
  The distance between the mean of the remaining cells and the center that the player
  reports, and \<open>n\<close> successive ticks of the physics of Player.js with the same step and
  world (the keys stay as they are, no cell is removed in between).
\<close>

definition centerOffset :: "Player \<Rightarrow> real" where
  "centerOffset p = vdist (getCenterPosition p) (centerPos p)"

fun ticks :: "nat \<Rightarrow> real \<Rightarrow> VoxelWorld \<Rightarrow> Player \<Rightarrow> Player" where
  "ticks 0 dt w p = p"
| "ticks (Suc n) dt w p = ticks n dt w (snd (updatePhysics dt w p))"

section \<open>A projectile against the players\<close>

text \<open>
  \<^verbatim>\<open>findTrajectoryVoxelIntersection(startPos, trajectory, trajectoryLength, playerVoxel)\<close>,
  MovingVoxel.js (server.js:1993); \<^verbatim>\<open>null\<close> is \<open>None\<close>.
\<close>

definition findTrajectoryVoxelIntersection ::
  "MovingVoxel \<Rightarrow> vec3 \<Rightarrow> vec3 \<Rightarrow> real \<Rightarrow> MovingVoxel \<Rightarrow> real option" where
  "findTrajectoryVoxelIntersection this startPos trajectory trajectoryLength playerVoxel =
     (case startPos of (s0, s1, s2) \<Rightarrow> case trajectory of (tr0, tr1, tr2) \<Rightarrow>
      case pos playerVoxel of (q0, q1, q2) \<Rightarrow>
      let projectileRadius = size this;
          playerVoxelRadius = size playerVoxel;
          combinedRadius = projectileRadius + playerVoxelRadius;
          toVoxel0 = q0 - s0; toVoxel1 = q1 - s1; toVoxel2 = q2 - s2;
          trajectoryDot = tr0\<^sup>2 + tr1\<^sup>2 + tr2\<^sup>2
      in if trajectoryDot < 0.001 then None
         else
           let projectionLength = (toVoxel0 * tr0 + toVoxel1 * tr1 + toVoxel2 * tr2) / trajectoryDot;
               clampedT = max 0 (min 1 projectionLength);
               closestPoint0 = s0 + tr0 * clampedT;
               closestPoint1 = s1 + tr1 * clampedT;
               closestPoint2 = s2 + tr2 * clampedT;
               dx = closestPoint0 - q0; dy = closestPoint1 - q1; dz = closestPoint2 - q2;
               distance = sqrt (dx * dx + dy * dy + dz * dz)
           in if distance \<le> combinedRadius
              then
                let a = trajectoryDot;
                    b = 2 * (tr0 * (s0 - q0) + tr1 * (s1 - q1) + tr2 * (s2 - q2));
                    c = (s0 - q0)\<^sup>2 + (s1 - q1)\<^sup>2 + (s2 - q2)\<^sup>2 - combinedRadius\<^sup>2;
                    discriminant = b * b - 4 * a * c
                in if discriminant \<ge> 0
                   then
                     let sqrtDiscriminant = sqrt discriminant;
                         t1 = (- b - sqrtDiscriminant) / (2 * a);
                         t2 = (- b + sqrtDiscriminant) / (2 * a)
                     in if t1 \<ge> 0 \<and> t1 \<le> 1 then Some t1
                        else if t2 \<ge> 0 \<and> t2 \<le> 1 then Some t2
                        else Some clampedT
                   else Some clampedT
              else None)"

text \<open>
  \<^verbatim>\<open>handlePlayerVoxelCollision(playerVoxel, server, hitPlayerId)\<close>, MovingVoxel.js
  (server.js:1468): it raises \<^verbatim>\<open>server.meshNeedsUpdate\<close> and returns \<^verbatim>\<open>'kill_both'\<close>.
\<close>

datatype hitResult = KillBoth

definition handlePlayerVoxelCollision ::
  "MovingVoxel \<Rightarrow> MovingVoxel \<Rightarrow> Server \<Rightarrow> string \<Rightarrow> hitResult \<times> Server" where
  "handlePlayerVoxelCollision this playerVoxel srv hitPlayerId = (KillBoth, srv\<lparr>meshNeedsUpdate := True\<rparr>)"

text \<open>
  The object \<^verbatim>\<open>closestCollision\<close> of \<^verbatim>\<open>handlePlayerCollisionsTrajectory\<close>: \<^verbatim>\<open>null\<close>, or
  the parameter \<^verbatim>\<open>t\<close>, the player and \<^verbatim>\<open>playerVoxelIndex\<close>. The player is kept as its
  index in the order of the \<^verbatim>\<open>Map\<close> (\<open>pid\<close> is the key \<^verbatim>\<open>playerId\<close> of the loop); the fields \<^verbatim>\<open>playerId\<close>, \<^verbatim>\<open>player\<close> and
  \<^verbatim>\<open>playerVoxel\<close> are read through the two indices. \<^verbatim>\<open>closestT\<close> is \<^verbatim>\<open>Infinity\<close> as long
  as \<^verbatim>\<open>closestCollision\<close> is \<^verbatim>\<open>null\<close>, and its \<^verbatim>\<open>t\<close> afterwards.
\<close>

type_synonym closestCollision = "(real \<times> nat \<times> nat) option"

definition belowClosestT :: "real \<Rightarrow> closestCollision \<Rightarrow> bool" where
  "belowClosestT t closest = (case closest of None \<Rightarrow> True | Some (closestT, k, i) \<Rightarrow> t < closestT)"

text \<open>The body of the loop over the cells of one player, at the cell of index \<open>i\<close>.\<close>

definition scanVoxel ::
  "MovingVoxel \<Rightarrow> vec3 \<Rightarrow> vec3 \<Rightarrow> real \<Rightarrow> nat \<Rightarrow> Player \<Rightarrow> nat \<Rightarrow> closestCollision \<Rightarrow> closestCollision" where
  "scanVoxel this startPos trajectory trajectoryLength k player i closest =
     (let playerVoxel = bodyVoxels player ! i
      in case findTrajectoryVoxelIntersection this startPos trajectory trajectoryLength playerVoxel of
           None \<Rightarrow> closest
         | Some t \<Rightarrow> if t \<ge> 0 \<and> t \<le> 1 \<and> belowClosestT t closest then Some (t, k, i) else closest)"

definition scanVoxels ::
  "MovingVoxel \<Rightarrow> vec3 \<Rightarrow> vec3 \<Rightarrow> real \<Rightarrow> nat \<Rightarrow> Player \<Rightarrow> closestCollision \<Rightarrow> closestCollision" where
  "scanVoxels this startPos trajectory trajectoryLength k player closest =
     fold (scanVoxel this startPos trajectory trajectoryLength k player)
       (rev [0..<length (bodyVoxels player)]) closest"

text \<open>
  The test that makes the loop over the players skip the thrower (server.js:1644-1654),
  for the value \<open>hasLeft\<close> of \<^verbatim>\<open>this.hasLeftThrowerHitbox\<close> at that moment.
\<close>

definition skipsThrower :: "MovingVoxel \<Rightarrow> vec3 \<Rightarrow> bool \<Rightarrow> string \<times> Player \<Rightarrow> bool" where
  "skipsThrower this startPos hasLeft entry =
     (case entry of (pid, player) \<Rightarrow>
        Some pid = throwerId this \<and> \<not> hasLeft
        \<and> (let throwerCenter = getCenterPosition player;
                dist = vdist startPos throwerCenter
            in dist < 20 \<and> framesSinceLaunch this < 10))"

text \<open>
  The body of the loop over the players, at the player of index \<open>k\<close>; the loop state is
  \<^verbatim>\<open>this.hasLeftThrowerHitbox\<close> and \<^verbatim>\<open>closestCollision\<close>.
\<close>

definition scanPlayer ::
  "MovingVoxel \<Rightarrow> vec3 \<Rightarrow> vec3 \<Rightarrow> real \<Rightarrow> (string \<times> Player) list \<Rightarrow> nat
     \<Rightarrow> bool \<times> closestCollision \<Rightarrow> bool \<times> closestCollision" where
  "scanPlayer this startPos trajectory trajectoryLength ps k st =
     (case st of (hasLeft, closest) \<Rightarrow>
      case ps ! k of (pid, player) \<Rightarrow>
        if Some pid = throwerId this \<and> \<not> hasLeft
        then if skipsThrower this startPos hasLeft (pid, player) then (hasLeft, closest)
             else (True, scanVoxels this startPos trajectory trajectoryLength k player closest)
        else (hasLeft, scanVoxels this startPos trajectory trajectoryLength k player closest))"

definition scanPlayers ::
  "MovingVoxel \<Rightarrow> vec3 \<Rightarrow> vec3 \<Rightarrow> real \<Rightarrow> (string \<times> Player) list \<Rightarrow> nat \<Rightarrow> bool \<times> closestCollision" where
  "scanPlayers this startPos trajectory trajectoryLength ps n =
     fold (scanPlayer this startPos trajectory trajectoryLength ps) [0..<n]
       (hasLeftThrowerHitbox this, None)"

text \<open>
  What \<^verbatim>\<open>handlePlayerCollisionsTrajectory\<close> returns: nothing (\<^verbatim>\<open>undefined\<close>), \<^verbatim>\<open>null\<close>
  or \<^verbatim>\<open>'kill_projectile'\<close>.
\<close>

datatype trajectoryResult = ReturnsUndefined | ReturnsNull | ReturnsKillProjectile

text \<open>
  \<^verbatim>\<open>handlePlayerCollisionsTrajectory(startPos, endPos, server)\<close>, MovingVoxel.js
  (server.js:1624). The result is the returned value, the projectile and the server.
\<close>

definition handlePlayerCollisionsTrajectory ::
  "MovingVoxel \<Rightarrow> vec3 \<Rightarrow> vec3 \<Rightarrow> Server \<Rightarrow> trajectoryResult \<times> MovingVoxel \<times> Server" where
  "handlePlayerCollisionsTrajectory this startPos endPos srv =
     (if length (players srv) = 0 then (ReturnsUndefined, this, srv)
      else
        case startPos of (s0, s1, s2) \<Rightarrow> case endPos of (e0, e1, e2) \<Rightarrow>
        let trajectory = (e0 - s0, e1 - s1, e2 - s2);
            trajectoryLength = sqrt ((e0 - s0)\<^sup>2 + (e1 - s1)\<^sup>2 + (e2 - s2)\<^sup>2)
        in if trajectoryLength < 0.001 then (ReturnsUndefined, this, srv)
           else
             case scanPlayers this startPos trajectory trajectoryLength (players srv)
                    (length (players srv)) of
               (hasLeft, closest) \<Rightarrow>
                 let this1 = this\<lparr>hasLeftThrowerHitbox := hasLeft\<rparr>
                 in case closest of
                      None \<Rightarrow> (ReturnsNull, this1, srv)
                    | Some (t, k, i) \<Rightarrow>
                        let collisionPos = (s0 + (e0 - s0) * t, s1 + (e1 - s1) * t, s2 + (e2 - s2) * t);
                            this2 = this1\<lparr>pos := collisionPos\<rparr>;
                            pid = fst (players srv ! k);
                            player = snd (players srv ! k);
                            playerVoxel = bodyVoxels player ! i
                        in case handlePlayerVoxelCollision this2 playerVoxel srv pid of
                             (collisionResult, srv1) \<Rightarrow>
                               if collisionResult = KillBoth
                               then (ReturnsKillProjectile, this2,
                                     srv1\<lparr>players := (players srv1)
                                        [k := (pid, player\<lparr>bodyVoxels := splice1 i (bodyVoxels player)\<rparr>)]\<rparr>)
                               else (ReturnsNull, this2, srv1))"

section \<open>One tick of a moving voxel\<close>

text \<open>
  The movement of \<^verbatim>\<open>update\<close> against the terrain (server.js:1503-1534), after gravity:
  the new position, and the bounce and the destruction when the sweep finds a collision.
\<close>

definition moveThroughTerrain :: "MovingVoxel \<Rightarrow> real \<Rightarrow> Server \<Rightarrow> MovingVoxel \<times> Server" where
  "moveThroughTerrain this dt srv =
     (let startPos = pos this;
          endPos = posAt (pos this) (vel this) dt
      in case findCollisionTime this startPos endPos dt (grid srv) of
           None \<Rightarrow> (this\<lparr>pos := endPos\<rparr>, srv)
         | Some collisionTime \<Rightarrow>
             if collisionTime > 0
             then let safeTime = max 0 (collisionTime - 0.001);
                      this1 = this\<lparr>pos := posAt startPos (vel this) safeTime\<rparr>
                  in case getCollisionInfo this1 (posAt startPos (vel this) collisionTime) (grid srv) of
                       None \<Rightarrow> (this1, srv)
                     | Some collision \<Rightarrow> handleCollision this1 collision srv
             else (this\<lparr>pos := endPos\<rparr>, srv))"

text \<open>\<^verbatim>\<open>handleWorldBoundaries()\<close>, server.js:1572.\<close>

definition handleWorldBoundaries :: "MovingVoxel \<Rightarrow> MovingVoxel" where
  "handleWorldBoundaries this =
     (let this1 =
            (case pos this of (p0, p1, p2) \<Rightarrow> case vel this of (v0, v1, v2) \<Rightarrow>
               if p1 < size this
               then if v1 < 0
                    then this\<lparr>pos := (p0, size this, p2), vel := (v0 * 0.8, v1 * - 0.3, v2 * 0.8)\<rparr>
                    else this\<lparr>pos := (p0, size this, p2)\<rparr>
               else this);
          margin = size this1
      in case pos this1 of (p0, p1, p2) \<Rightarrow>
           this1\<lparr>pos := (max margin (min (real_of_int WORLD_SIZE - margin) p0), p1,
                          max margin (min (real_of_int WORLD_SIZE - margin) p2))\<rparr>)"

text \<open>
  \<^verbatim>\<open>handleVoxelCollisions(allVoxels)\<close>, server.js:1592, for the voxel at index \<open>i\<close> of the
  array: every other element that touches it is pushed apart from it.
\<close>

definition handleVoxelCollisions :: "MovingVoxel \<Rightarrow> nat \<Rightarrow> MovingVoxel list \<Rightarrow> MovingVoxel \<times> MovingVoxel list" where
  "handleVoxelCollisions this i allVoxels =
     fold (\<lambda>j st. case st of (this1, vs) \<Rightarrow>
             if j \<noteq> i \<and> checkVoxelToVoxelCollision this1 (vs ! j)
             then case handleVoxelCollision this1 (vs ! j) of
                    (this2, otherVoxel) \<Rightarrow> (this2, vs[j := otherVoxel])
             else (this1, vs))
       [0..<length allVoxels] (this, allVoxels)"

text \<open>\<^verbatim>\<open>handleDebrisPlayerCollisions(server)\<close>, server.js:1603.\<close>

definition handleDebrisPlayerCollisions ::
  "MovingVoxel \<Rightarrow> (string \<times> Player) list \<Rightarrow> MovingVoxel \<times> (string \<times> Player) list" where
  "handleDebrisPlayerCollisions this ps =
     (if isProjectile this then (this, ps)
      else fold (\<lambda>k st. fold (\<lambda>i st1. case st1 of (this1, ps1) \<Rightarrow>
                    let player = snd (ps1 ! k);
                        playerVoxel = bodyVoxels player ! i
                    in if checkVoxelToVoxelCollision this1 playerVoxel
                       then case handleVoxelCollision this1 playerVoxel of
                              (this2, playerVoxel1) \<Rightarrow>
                                (this2, ps1[k := (fst (ps1 ! k),
                                   player\<lparr>bodyVoxels := (bodyVoxels player)[i := playerVoxel1]\<rparr>)])
                       else (this1, ps1))
                  (rev [0..<length (bodyVoxels (snd (snd st ! k)))]) st)
             [0..<length ps] (this, ps))"

text \<open>\<^verbatim>\<open>checkSettling(server)\<close>, server.js:1768.\<close>

definition checkSettling :: "MovingVoxel \<Rightarrow> Server \<Rightarrow> tickResult \<times> MovingVoxel \<times> Server" where
  "checkSettling this srv =
     (let speed = speedOf this;
          posChange = vdist (pos this) (lastPos this);
          this1 = this\<lparr>lastPos := pos this\<rparr>
      in if speed < SETTLE_SPEED_THRESHOLD \<or> posChange < 0.05
         then case settleToGrid this1 srv of (result, srv1) \<Rightarrow> (result, this1, srv1)
         else (Continue, this1, srv))"

text \<open>
  \<^verbatim>\<open>update(dt, allVoxels, server)\<close>, MovingVoxel.js (server.js:1482), for the voxel at
  index \<open>i\<close> of \<^verbatim>\<open>server.movingVoxels\<close> (\<^verbatim>\<open>allVoxels\<close> is that array). The voxel is
  taken out of the array, updated, and stored back at its index; the debris that an
  impact appends goes to the end of the array.
\<close>

definition update :: "nat \<Rightarrow> real \<Rightarrow> Server \<Rightarrow> tickResult \<times> Server" where
  "update i dt srv =
     (let this = movingVoxels srv ! i
      in if isPlayerVoxel this then (Continue, srv)
         else
           let this1 = (if isProjectile this
                        then this\<lparr>framesSinceLaunch := framesSinceLaunch this + 1\<rparr> else this);
               this2 = applyGravity this1 dt
           in case moveThroughTerrain this2 dt srv of
                (this3, srv3) \<Rightarrow>
                  let hit =
                        (if isProjectile this3
                         then let actualStartPos = posAt (pos this3) (vel this3) (- dt);
                                  actualEndPos = pos this3
                              in handlePlayerCollisionsTrajectory this3 actualStartPos actualEndPos srv3
                         else (ReturnsNull, this3, srv3))
                  in case hit of
                       (playerCollisionResult, this4, srv4) \<Rightarrow>
                         if isProjectile this3 \<and> playerCollisionResult = ReturnsKillProjectile
                         then (KillProjectile, srv4\<lparr>movingVoxels := (movingVoxels srv4)[i := this4]\<rparr>)
                         else
                           let this5 = handleWorldBoundaries this4
                           in case handleVoxelCollisions this5 i (movingVoxels srv4) of
                                (this6, vs6) \<Rightarrow>
                                  case (if \<not> isProjectile this6
                                        then handleDebrisPlayerCollisions this6 (players srv4)
                                        else (this6, players srv4)) of
                                    (this7, ps7) \<Rightarrow>
                                      case checkSettling this7 (srv4\<lparr>movingVoxels := vs6, players := ps7\<rparr>) of
                                        (result, this8, srv8) \<Rightarrow>
                                          (result, srv8\<lparr>movingVoxels := (movingVoxels srv8)[i := this8]\<rparr>))"


text \<open>
  Notions to state what the scan of the players finds. The segment of the tick is
  \<open>posAt startPos trajectory s\<close> for \<open>0 \<le> s \<le> 1\<close>; the sphere of a cell has the two sizes
  added as its radius. A candidate is a cell of a player that the scan does not skip,
  with the parameter \<open>t\<close> that \<^verbatim>\<open>findTrajectoryVoxelIntersection\<close> gives for it.
\<close>

definition onSphere :: "MovingVoxel \<Rightarrow> vec3 \<Rightarrow> vec3 \<Rightarrow> MovingVoxel \<Rightarrow> real \<Rightarrow> bool" where
  "onSphere this startPos trajectory playerVoxel s =
     (0 \<le> s \<and> s \<le> 1
      \<and> vdist (posAt startPos trajectory s) (pos playerVoxel) = size this + size playerVoxel)"

definition withinSphere :: "MovingVoxel \<Rightarrow> vec3 \<Rightarrow> vec3 \<Rightarrow> MovingVoxel \<Rightarrow> real \<Rightarrow> bool" where
  "withinSphere this startPos trajectory playerVoxel s =
     (0 \<le> s \<and> s \<le> 1
      \<and> vdist (posAt startPos trajectory s) (pos playerVoxel) \<le> size this + size playerVoxel)"


text \<open>The \<^verbatim>\<open>Map\<close> of the players after \<^verbatim>\<open>bodyVoxels.splice(i, 1)\<close> on its player of index \<open>k\<close>.\<close>

definition withoutCell :: "(string \<times> Player) list \<Rightarrow> nat \<Rightarrow> nat \<Rightarrow> (string \<times> Player) list" where
  "withoutCell ps k i =
     ps[k := (fst (ps ! k), (snd (ps ! k))\<lparr>bodyVoxels := splice1 i (bodyVoxels (snd (ps ! k)))\<rparr>)]"



text \<open>
  The voxel of index \<open>j\<close> and the server at the moment \<^verbatim>\<open>update\<close> reaches its check
  against the players: the frame is counted, gravity is applied and the voxel has moved
  through the terrain.
\<close>

definition arrival :: "nat \<Rightarrow> real \<Rightarrow> Server \<Rightarrow> MovingVoxel \<times> Server" where
  "arrival j dt srv =
     (let this = movingVoxels srv ! j;
          this1 = (if isProjectile this
                   then this\<lparr>framesSinceLaunch := framesSinceLaunch this + 1\<rparr> else this)
      in moveThroughTerrain (applyGravity this1 dt) dt srv)"

section \<open>Concrete scenarios\<close>

text \<open>A world with no solid cell, and the world whose solid cells are those of a list, each
  written with \<^verbatim>\<open>setWorld(x, y, z, 1)\<close>.\<close>

definition emptyWorld :: VoxelWorld where
  "emptyWorld = \<lparr>world = (\<lambda>_. 0), heights = (\<lambda>_. 0), terrainNeedsRebuild = False\<rparr>"

definition withCell :: "int \<times> int \<times> int \<Rightarrow> VoxelWorld \<Rightarrow> VoxelWorld" where
  "withCell c w = (case c of (x, y, z) \<Rightarrow> snd (setWorld w x y z 1))"

definition worldOf :: "(int \<times> int \<times> int) list \<Rightarrow> VoxelWorld" where
  "worldOf cs = fold withCell cs emptyWorld"

text \<open>A debris voxel at position \<open>p\<close> with velocity \<open>v\<close>, as the constructor builds it.\<close>

definition debrisAt :: "vec3 \<Rightarrow> vec3 \<Rightarrow> MovingVoxel" where
  "debrisAt p v = (newMovingVoxel p (0, 0, 0) False None False None 0)\<lparr>vel := v\<rparr>"

text \<open>
  A body whose centre is in the middle of a cell, falling at 9.2 units per second, for a
  tick of 0.02 seconds. In the world \<open>worldOf [(5, 5, 5)]\<close> it is buried in the solid cell
  (for instance because a neighbouring body has just settled there); in the world
  \<open>worldOf [(5, 4, 5)]\<close> it falls onto the solid cell below it.
\<close>

definition fallingVoxel :: MovingVoxel where
  "fallingVoxel = debrisAt (5.5, 5.5, 5.5) (0, -9.2, 0)"

text \<open>
  A fast body that starts outside solid terrain, clips the corner of the solid cell
  \<open>(5, 5, 0)\<close> and ends the tick of 0.002 seconds inside the reach of the solid cell
  \<open>(5, 7, 0)\<close>.
\<close>

definition clippingVoxel :: MovingVoxel where
  "clippingVoxel = debrisAt (6.5, 6.3, 0.5) (-150, 150.08, 0)"

text \<open>A server state with the given grid, players, moving voxels and random sequence, as the
  constructor of \<^verbatim>\<open>VoxelServer\<close> initialises the rest.\<close>

definition serverWith :: "VoxelWorld \<Rightarrow> (string \<times> Player) list \<Rightarrow> MovingVoxel list \<Rightarrow> (nat \<Rightarrow> real) \<Rightarrow> Server" where
  "serverWith w ps mvs rnd =
     \<lparr>grid = w, players = ps, movingVoxels = mvs, meshNeedsUpdate = False, useChunkedMesh = True,
      dirtyMarks = [], terrainFlag = False, randoms = rnd, drawn = 0\<rparr>"

text \<open>A body at rest in the middle of the cell \<open>(5, 5, 5)\<close>.\<close>

definition restingVoxel :: MovingVoxel where
  "restingVoxel = debrisAt (5.5, 5.5, 5.5) (0, 0, 0)"

text \<open>
  A flat slab of solid cells at height 4, a projectile that reaches it at speed 30
  (velocity \<open>(24, -18, 0)\<close>), thrown by \<open>player_1\<close>, the collision with the slab cell
  \<open>(5, 4, 5)\<close> on the vertical axis, and a server whose random draws are all 0.9.
\<close>

definition slabWorld :: VoxelWorld where
  "slabWorld = worldOf (concat (map (\<lambda>x. map (\<lambda>z. (x, 4, z)) (loopRange 3 8)) (loopRange 3 8)))"

definition projectile30 :: MovingVoxel where
  "projectile30 =
     (newMovingVoxel (5.5, 5.45, 5.5) (0, 0, 0) True (Some ''player_1'') False None 0)
       \<lparr>vel := (24, -18, 0)\<rparr>"

definition slabCollision :: Collision where
  "slabCollision = \<lparr>block = (5, 4, 5), axis = 1\<rparr>"

definition slabServer :: Server where
  "slabServer = serverWith slabWorld [] [projectile30] (\<lambda>_. 0.9)"

text \<open>
  A player of two cells standing at \<open>(64.5, 48, 64.9)\<close>, looking along \<open>+z\<close> with the
  forward key pressed, and a world whose height cache records 8 solid cells for the
  column \<open>(64, 65)\<close> in front of the player and none elsewhere.
\<close>

definition cellOfPlayer :: "vec3 \<Rightarrow> MovingVoxel" where
  "cellOfPlayer p = newMovingVoxel p (0, 0, 0) False None True (Some ''player_1'') 0"

definition walker :: Player where
  "walker = \<lparr>centerPos = (64.5, 48, 64.9), velY = 0, grounded = True, yaw = 0, pitch = 0,
             keys = \<lparr>key_w = True, key_s = False, key_a = False, key_d = False\<rparr>,
             bodyVoxels = [cellOfPlayer (64.5, 47.5, 64.9), cellOfPlayer (64.5, 48.5, 64.9)]\<rparr>"

definition stepWorld :: VoxelWorld where
  "stepWorld = emptyWorld\<lparr>heights := (\<lambda>_. 0)(64 + 65 * 128 := 8)\<rparr>"

text \<open>
  A grounded player on flat ground whose cells were shot away except one, 6 units from
  the center that the player still reports; and the same player holding the key that
  moves along \<open>+x\<close> when looking along \<open>+z\<close>.
\<close>

definition survivor :: Player where
  "survivor = \<lparr>centerPos = (64, 48, 64), velY = 0, grounded = True, yaw = 0, pitch = 0,
               keys = \<lparr>key_w = False, key_s = False, key_a = False, key_d = False\<rparr>,
               bodyVoxels = [cellOfPlayer (70, 48, 64)]\<rparr>"

definition strafing :: Player where
  "strafing = survivor\<lparr>keys := \<lparr>key_w = False, key_s = False, key_a = True, key_d = False\<rparr>\<rparr>"

text \<open>
  Projectiles and players for the check of a projectile against the players. A projectile
  of the player \<open>''player_1''\<close> at \<open>p\<close> with velocity \<open>v\<close>, \<open>n\<close> frames after its launch; a
  body cell of the player \<open>pid\<close> as the constructor of \<^verbatim>\<open>Player\<close> builds it; a standing
  player with the given cells.
\<close>

definition bullet :: "vec3 \<Rightarrow> vec3 \<Rightarrow> int \<Rightarrow> MovingVoxel" where
  "bullet p v n =
     (newMovingVoxel p (0, 0, 0) True (Some ''player_1'') False None 0)\<lparr>vel := v, framesSinceLaunch := n\<rparr>"

definition cellOf :: "string \<Rightarrow> vec3 \<Rightarrow> MovingVoxel" where
  "cellOf pid p = newMovingVoxel p (0, 0, 0) False None True (Some pid) 0"

definition standing :: "string \<Rightarrow> vec3 \<Rightarrow> vec3 list \<Rightarrow> Player" where
  "standing pid c cells =
     \<lparr>centerPos = c, velY = 0, grounded = True, yaw = 0, pitch = 0,
      keys = \<lparr>key_w = False, key_s = False, key_a = False, key_d = False\<rparr>,
      bodyVoxels = map (cellOf pid) cells\<rparr>"




text \<open>
  The projectile of \<open>''player_1''\<close> flies through the body of \<open>''player_1''\<close>: \<open>n\<close> frames
  after its launch it is 2 units from the mean of the two cells of its thrower, and it
  moves one unit along \<open>+x\<close> in a tick of 0.02 seconds.
\<close>

definition ownServer :: "int \<Rightarrow> Server" where
  "ownServer n =
     serverWith emptyWorld
       [(''player_1'', standing ''player_1'' (12, 60, 64) [(11.5, 60, 64), (12.5, 60, 64)])]
       [bullet (10, 60, 64) (50, 0.8, 0) n] (\<lambda>_. 0)"

text \<open>
  Terrain whose height cache records 16 solid cells in every column, and a grounded
  player at the western boundary, at \<open>x = 0.5\<close>, whose only remaining cell is at
  \<open>x = -0.2\<close>, holding the key that moves along \<open>+x\<close> when looking along \<open>+z\<close>.
\<close>

definition flatTerrain :: VoxelWorld where
  "flatTerrain = emptyWorld\<lparr>heights := (\<lambda>_. 16)\<rparr>"

definition edgePlayer :: Player where
  "edgePlayer = \<lparr>centerPos = (0.5, 64, 5.5), velY = 0, grounded = True, yaw = 0, pitch = 0,
                 keys = \<lparr>key_w = False, key_s = False, key_a = True, key_d = False\<rparr>,
                 bodyVoxels = [cellOfPlayer (- 0.2, 64, 5.5)]\<rparr>"

section \<open>Properties\<close>

lemma set_loopRange: "set (loopRange a b) = {i. a \<le> i \<and> i < b}"
  unfolding loopRange_def
  apply (auto simp: image_iff)
  subgoal for x by (rule bexI[of _ "nat (x - a)"]) auto
  done

lemma distinct_loopRange: "distinct (loopRange a b)"
  unfolding loopRange_def by (simp add: distinct_map inj_on_def)

lemma fold_count: "fold (\<lambda>y h. if P y then h + 1 else h) ys (h0::int) = h0 + int (length (filter P ys))"
  by (induction ys arbitrary: h0) auto

lemma columnCount_card:
  "columnCount w x z = int (card {y. 0 \<le> y \<and> y < WORLD_SIZE \<and> getWorld w x y z \<noteq> 0})"
proof -
  let ?ys = "filter (\<lambda>y. getWorld w x y z \<noteq> 0) (loopRange 0 WORLD_SIZE)"
  have s: "{y. 0 \<le> y \<and> y < WORLD_SIZE \<and> getWorld w x y z \<noteq> 0} = set ?ys"
    by (auto simp: set_loopRange)
  have d: "distinct ?ys"
    by (simp add: distinct_loopRange)
  have "card (set ?ys) = length ?ys"
    by (rule distinct_card[OF d])
  then have "card {y. 0 \<le> y \<and> y < WORLD_SIZE \<and> getWorld w x y z \<noteq> 0} = length ?ys"
    by (simp only: s)
  then show ?thesis
    unfolding columnCount_def by (simp add: fold_count)
qed

lemma length_loopRange: "length (loopRange a b) = nat (b - a)"
  by (simp add: loopRange_def)

lemma columnCount_bounds: "0 \<le> columnCount w x z \<and> columnCount w x z \<le> 128"
proof -
  have "length (filter (\<lambda>y. getWorld w x y z \<noteq> 0) (loopRange 0 WORLD_SIZE)) \<le> length (loopRange 0 WORLD_SIZE)"
    by (rule length_filter_le)
  also have "\<dots> = 128" by (simp add: length_loopRange WORLD_SIZE_def)
  finally show ?thesis unfolding columnCount_def by (simp only: fold_count) simp
qed

lemma fold_product:
  "fold (\<lambda>x. fold (F x) zs) xs s = fold (\<lambda>p. F (fst p) (snd p)) (List.product xs zs) s"
  by (induction xs arbitrary: s) (simp_all add: fold_map comp_def)

lemma rebuildTerrain_product:
  "rebuildTerrain w = fold putHeight (List.product (loopRange 0 WORLD_SIZE) (loopRange 0 WORLD_SIZE)) w"
proof -
  have "putHeight = (\<lambda>p. (\<lambda>x z w2. w2\<lparr>heights := (heights w2)(x + z * WORLD_SIZE := word_of_int (columnCount w2 x z))\<rparr>) (fst p) (snd p))"
    by (simp add: fun_eq_iff putHeight_def)
  then show ?thesis
    unfolding rebuildTerrain_def by (simp only: fold_product)
qed

lemma getWorld_cong: "world w' = world w \<Longrightarrow> getWorld w' x y z = getWorld w x y z"
  by (simp add: getWorld_def)

lemma columnCount_cong:
  assumes "world w' = world w"
  shows "columnCount w' x z = columnCount w x z"
proof -
  have "(\<lambda>y (h::int). if getWorld w' x y z \<noteq> 0 then h + 1 else h)
        = (\<lambda>y h. if getWorld w x y z \<noteq> 0 then h + 1 else h)"
    using assms by (simp add: getWorld_def fun_eq_iff)
  then show ?thesis by (simp only: columnCount_def)
qed

lemma putHeight_world: "world (putHeight p w) = world w"
  by (simp add: putHeight_def)

lemma fold_putHeight_world: "world (fold putHeight ps w) = world w"
  by (induction ps arbitrary: w) (simp_all add: putHeight_world)

lemma fold_putHeight_other:
  "i \<notin> colIdx ` set ps \<Longrightarrow> heights (fold putHeight ps w) i = heights w i"
proof (induction ps arbitrary: w)
  case Nil
  then show ?case by simp
next
  case (Cons p ps)
  from Cons.prems have a: "i \<noteq> colIdx p" and b: "i \<notin> colIdx ` set ps" by auto
  have "heights (fold putHeight ps (putHeight p w)) i = heights (putHeight p w) i"
    by (rule Cons.IH[OF b])
  also have "\<dots> = heights w i"
    using a by (simp add: putHeight_def colIdx_def)
  finally show ?case by simp
qed

lemma fold_putHeight_hit:
  assumes "p \<in> set ps" and "inj_on colIdx (set ps)"
  shows "heights (fold putHeight ps w) (colIdx p) = word_of_int (columnCount w (fst p) (snd p))"
  using assms
proof (induction ps arbitrary: w)
  case Nil
  then show ?case by simp
next
  case (Cons q ps)
  have inj: "inj_on colIdx (set ps)"
    using Cons.prems(2) by (simp add: inj_on_def)
  show ?case
  proof (cases "p \<in> set ps")
    case True
    have "heights (fold putHeight ps (putHeight q w)) (colIdx p)
          = word_of_int (columnCount (putHeight q w) (fst p) (snd p))"
      by (rule Cons.IH[OF True inj])
    then show ?thesis
      by (simp add: columnCount_cong[OF putHeight_world])
  next
    case False
    then have q: "q = p" using Cons.prems(1) by simp
    have "colIdx p \<notin> colIdx ` set ps"
    proof
      assume "colIdx p \<in> colIdx ` set ps"
      then obtain r where r: "r \<in> set ps" "colIdx r = colIdx p"
        by auto
      then have "r = p"
        using Cons.prems(2) q by (simp add: inj_on_def)
      with r False show False by simp
    qed
    then have "heights (fold putHeight ps (putHeight q w)) (colIdx p)
               = heights (putHeight q w) (colIdx p)"
      by (rule fold_putHeight_other)
    also have "\<dots> = word_of_int (columnCount w (fst p) (snd p))"
      by (simp add: q putHeight_def colIdx_def)
    finally show ?thesis by simp
  qed
qed

lemma inj_aux:
  fixes a b c d :: int
  assumes "0 \<le> a" "a < 128" "0 \<le> c" "c < 128"
    and e: "a + b * 128 = c + d * 128"
  shows "a = c \<and> b = d"
proof -
  have "(a + b * 128) mod 128 = (c + d * 128) mod 128"
    by (simp only: e)
  then have "a mod 128 = c mod 128" by simp
  then have ac: "a = c" using assms(1-4) by simp
  with e show ?thesis by simp
qed

lemma inj_column_index:
  "inj_on colIdx (set (List.product (loopRange 0 WORLD_SIZE) (loopRange 0 WORLD_SIZE)))"
proof (rule inj_onI)
  fix p q
  assume p: "p \<in> set (List.product (loopRange 0 WORLD_SIZE) (loopRange 0 WORLD_SIZE))"
    and q: "q \<in> set (List.product (loopRange 0 WORLD_SIZE) (loopRange 0 WORLD_SIZE))"
    and e: "colIdx p = colIdx q"
  obtain a b where pa: "p = (a, b)" by (cases p)
  obtain c d where qc: "q = (c, d)" by (cases q)
  have "0 \<le> a" "a < 128" "0 \<le> c" "c < 128"
    using p q by (simp_all add: pa qc set_loopRange WORLD_SIZE_def)
  moreover have "a + b * 128 = c + d * 128"
    using e by (simp add: pa qc colIdx_def WORLD_SIZE_def)
  ultimately have "a = c \<and> b = d" by (rule inj_aux)
  then show "p = q" by (simp add: pa qc)
qed

lemma rebuildTerrain_world: "world (rebuildTerrain w) = world w"
  by (simp add: rebuildTerrain_product fold_putHeight_world)

lemma rebuildTerrain_height:
  assumes "0 \<le> x" "x < WORLD_SIZE" "0 \<le> z" "z < WORLD_SIZE"
  shows "heights (rebuildTerrain w) (x + z * WORLD_SIZE) = word_of_int (columnCount w x z)"
proof -
  have "(x, z) \<in> set (List.product (loopRange 0 WORLD_SIZE) (loopRange 0 WORLD_SIZE))"
    using assms by (simp add: set_loopRange)
  from fold_putHeight_hit[OF this inj_column_index, of w]
  show ?thesis by (simp add: rebuildTerrain_product colIdx_def)
qed

lemma sint_columnCount: "sint (word_of_int (columnCount w x z) :: 32 word) = columnCount w x z"
proof -
  have "0 \<le> columnCount w x z" "columnCount w x z \<le> 128"
    using columnCount_bounds[of w x z] by simp_all
  then show ?thesis
    by (simp add: sint_sbintrunc' signed_take_bit_int_eq_self)
qed

text \<open>
  Claim C2. Immediately after the height rebuild (\<^verbatim>\<open>rebuildTerrain\<close> of server.js,
  \<^verbatim>\<open>rebuildHeightMap\<close> of VoxelWorld.js), for every column \<open>(x, z)\<close> of
  \<open>[0,128)\<^sup>2\<close> the cached value \<open>heights[x + z*128]\<close> is the number of \<open>y\<close> in
  \<open>[0,128)\<close> at which the cell \<open>(x, y, z)\<close> is solid. The value is read back from the
  32-bit array as a signed integer; the count is at most 128, so nothing wraps.
\<close>

theorem rebuild_heights_count:
  assumes "0 \<le> x" "x < 128" "0 \<le> z" "z < 128"
  shows "sint (heights (rebuildTerrain w) (x + z * 128))
           = int (card {y. 0 \<le> y \<and> y < 128 \<and> getWorld (rebuildTerrain w) x y z \<noteq> 0})
       \<and> sint (heights (rebuildHeightMap w) (x + z * 128))
           = int (card {y. 0 \<le> y \<and> y < 128 \<and> getWorld (rebuildHeightMap w) x y z \<noteq> 0})"
proof -
  have b: "0 \<le> x" "x < WORLD_SIZE" "0 \<le> z" "z < WORLD_SIZE"
    using assms by (simp_all add: WORLD_SIZE_def)
  have g: "\<And>y. getWorld (rebuildTerrain w) x y z = getWorld w x y z"
     "\<And>y. getWorld (rebuildHeightMap w) x y z = getWorld w x y z"
    by (simp_all add: getWorld_def rebuildTerrain_world rebuildHeightMap_def)
  have h: "heights (rebuildHeightMap w) = heights (rebuildTerrain w)"
    by (simp add: rebuildHeightMap_def)
  have "sint (heights (rebuildTerrain w) (x + z * WORLD_SIZE)) = columnCount w x z"
    by (simp only: rebuildTerrain_height[OF b] sint_columnCount)
  then have "sint (heights (rebuildTerrain w) (x + z * 128))
      = int (card {y. 0 \<le> y \<and> y < 128 \<and> getWorld w x y z \<noteq> 0})"
    by (simp add: columnCount_card WORLD_SIZE_def)
  then show ?thesis by (simp only: g h)
qed

text \<open>The theorem at column \<open>(3, 5)\<close> of a world whose only solid cell is \<open>(3, 40, 5)\<close>.\<close>

theorem rebuild_heights_count_witness:
  "(0::int) \<le> 3 \<and> (3::int) < 128 \<and> (0::int) \<le> 5 \<and> (5::int) < 128
   \<and> sint (heights (rebuildTerrain \<lparr>world = (\<lambda>_. 0)(3 + 40 * 128 + 5 * 128 * 128 := 1),
                                       heights = (\<lambda>_. 0), terrainNeedsRebuild = True\<rparr>) (3 + 5 * 128)) = 1
   \<and> sint (heights (rebuildHeightMap \<lparr>world = (\<lambda>_. 0)(3 + 40 * 128 + 5 * 128 * 128 := 1),
                                       heights = (\<lambda>_. 0), terrainNeedsRebuild = True\<rparr>) (3 + 5 * 128)) = 1"
proof -
  let ?w = "\<lparr>world = (\<lambda>_. 0)(3 + 40 * 128 + 5 * 128 * 128 := (1::8 word)),
             heights = (\<lambda>_. 0::32 word), terrainNeedsRebuild = True\<rparr>"
  have c: "{y. 0 \<le> y \<and> y < 128 \<and> getWorld ?w 3 y 5 \<noteq> 0} = {40}"
    by (auto simp: getWorld_def WORLD_SIZE_def)
  have g: "\<And>y. getWorld (rebuildTerrain ?w) 3 y 5 = getWorld ?w 3 y 5"
     "\<And>y. getWorld (rebuildHeightMap ?w) 3 y 5 = getWorld ?w 3 y 5"
    by (simp_all add: getWorld_def rebuildTerrain_world rebuildHeightMap_def)
  show ?thesis
    using rebuild_heights_count[of 3 5 ?w] by (simp only: g c) simp
qed

lemma cellIdx_inj:
  fixes a b c a' b' c' :: int
  assumes "0 \<le> a" "a < 128" "0 \<le> b" "b < 128" "0 \<le> a'" "a' < 128" "0 \<le> b'" "b' < 128"
    and e: "a + b * 128 + c * 128 * 128 = a' + b' * 128 + c' * 128 * 128"
  shows "a = a' \<and> b = b' \<and> c = c'"
proof -
  have "a + (b + c * 128) * 128 = a' + (b' + c' * 128) * 128"
    using e by (simp add: algebra_simps)
  from inj_aux[OF assms(1,2,5,6) this] have 1: "a = a'" and 2: "b + c * 128 = b' + c' * 128"
    by simp_all
  from inj_aux[OF assms(3,4,7,8) 2] 1 show ?thesis by simp
qed

lemma byte_changed:
  fixes old :: "8 word"
  assumes "0 \<le> v" "v < 256"
  shows "uint old \<noteq> v \<longleftrightarrow> word_of_int v \<noteq> old"
proof -
  have "uint (word_of_int v :: 8 word) = v"
    using assms by (simp add: uint_word_of_int)
  moreover have "word_of_int (uint old) = old" by (rule word_of_int_uint)
  ultimately show ?thesis by auto
qed

lemma setWorld_out:
  assumes "x < 0 \<or> x \<ge> 128 \<or> y < 0 \<or> y \<ge> 128 \<or> z < 0 \<or> z \<ge> 128"
  shows "getWorld w x y z = 0 \<and> setWorld w x y z u = (False, w) \<and> VoxelWorld_setWorld w x y z u = (False, w)"
  using assms by (auto simp: getWorld_def setWorld_def VoxelWorld_setWorld_def WORLD_SIZE_def)

lemma setWorld_in:
  assumes "0 \<le> a" "a < 128" "0 \<le> b" "b < 128" "0 \<le> c" "c < 128"
  shows "setWorld w a b c u =
           (uint (world w (a + b * 128 + c * 128 * 128)) \<noteq> u,
            w\<lparr>world := (world w)(a + b * 128 + c * 128 * 128 := word_of_int u)\<rparr>)"
    and "snd (VoxelWorld_setWorld w a b c u) =
            w\<lparr>world := (world w)(a + b * 128 + c * 128 * 128 := word_of_int u),
              terrainNeedsRebuild := (uint (world w (a + b * 128 + c * 128 * 128)) \<noteq> u \<or> terrainNeedsRebuild w)\<rparr>"
    and "fst (VoxelWorld_setWorld w a b c u) = (uint (world w (a + b * 128 + c * 128 * 128)) \<noteq> u)"
  using assms by (simp_all add: setWorld_def VoxelWorld_setWorld_def WORLD_SIZE_def Let_def)

lemma getWorld_in:
  assumes "0 \<le> a" "a < 128" "0 \<le> b" "b < 128" "0 \<le> c" "c < 128"
  shows "getWorld w a b c = world w (a + b * 128 + c * 128 * 128)"
  using assms by (simp add: getWorld_def WORLD_SIZE_def)

lemma getWorld_update_other:
  assumes inb: "0 \<le> a" "a < 128" "0 \<le> b" "b < 128" "0 \<le> c" "c < 128"
    and ne: "(a', b', c') \<noteq> (a, b, c)"
    and w': "world w' = (world w)(a + b * 128 + c * 128 * 128 := k)"
  shows "getWorld w' a' b' c' = getWorld w a' b' c'"
proof (cases "a' < 0 \<or> a' \<ge> 128 \<or> b' < 0 \<or> b' \<ge> 128 \<or> c' < 0 \<or> c' \<ge> 128")
  case True
  then show ?thesis by (simp add: getWorld_def WORLD_SIZE_def)
next
  case False
  then have inb': "0 \<le> a'" "a' < 128" "0 \<le> b'" "b' < 128" "0 \<le> c'" "c' < 128" by simp_all
  have "a' + b' * 128 + c' * 128 * 128 \<noteq> a + b * 128 + c * 128 * 128"
  proof
    assume "a' + b' * 128 + c' * 128 * 128 = a + b * 128 + c * 128 * 128"
    from cellIdx_inj[OF inb'(1-4) inb(1-4) this] ne show False by simp
  qed
  then show ?thesis
    by (simp add: getWorld_in[OF inb'] w')
qed

text \<open>
  Claim C1. Outside \<open>[0,128)\<^sup>3\<close> a read returns empty (0) and a write returns false and
  leaves the grid as it was; the functions are total, so nothing is thrown. Inside the
  bounds, a write of a cell value (a byte) returns true exactly when the stored value of
  the cell changes, and no cell other than \<open>(a, b, c)\<close> changes (nor does the height
  cache). Both \<^verbatim>\<open>setWorld\<close> of server.js and \<^verbatim>\<open>VoxelWorld.setWorld\<close> are covered.
\<close>

theorem grid_bounds:
  assumes out: "x < 0 \<or> x \<ge> 128 \<or> y < 0 \<or> y \<ge> 128 \<or> z < 0 \<or> z \<ge> 128"
    and inb: "0 \<le> a" "a < 128" "0 \<le> b" "b < 128" "0 \<le> c" "c < 128"
    and byte: "0 \<le> v" "v < 256"
  shows "getWorld w x y z = 0
    \<and> setWorld w x y z u = (False, w)
    \<and> VoxelWorld_setWorld w x y z u = (False, w)
    \<and> (fst (setWorld w a b c v) \<longleftrightarrow> getWorld (snd (setWorld w a b c v)) a b c \<noteq> getWorld w a b c)
    \<and> (fst (VoxelWorld_setWorld w a b c v)
           \<longleftrightarrow> getWorld (snd (VoxelWorld_setWorld w a b c v)) a b c \<noteq> getWorld w a b c)
    \<and> (\<forall>a' b' c'. (a', b', c') \<noteq> (a, b, c)
           \<longrightarrow> getWorld (snd (setWorld w a b c u)) a' b' c' = getWorld w a' b' c'
             \<and> getWorld (snd (VoxelWorld_setWorld w a b c u)) a' b' c' = getWorld w a' b' c')
    \<and> heights (snd (setWorld w a b c u)) = heights w
    \<and> heights (snd (VoxelWorld_setWorld w a b c u)) = heights w"
proof -
  note o = setWorld_out[OF out, of w u]
  let ?i = "a + b * 128 + c * 128 * 128"
  have f1: "fst (setWorld w a b c v) = (uint (world w ?i) \<noteq> v)"
    by (simp add: setWorld_in(1)[OF inb])
  have n1: "getWorld (snd (setWorld w a b c v)) a b c = word_of_int v"
    by (simp add: setWorld_in(1)[OF inb] getWorld_in[OF inb])
  have f2: "fst (VoxelWorld_setWorld w a b c v) = (uint (world w ?i) \<noteq> v)"
    by (rule setWorld_in(3)[OF inb])
  have n2: "getWorld (snd (VoxelWorld_setWorld w a b c v)) a b c = word_of_int v"
    by (simp add: setWorld_in(2)[OF inb] getWorld_in[OF inb])
  have old: "getWorld w a b c = world w ?i"
    by (rule getWorld_in[OF inb])
  have 1: "fst (setWorld w a b c v) \<longleftrightarrow> getWorld (snd (setWorld w a b c v)) a b c \<noteq> getWorld w a b c"
    unfolding f1 n1 old by (rule byte_changed[OF byte])
  have 2: "fst (VoxelWorld_setWorld w a b c v)
           \<longleftrightarrow> getWorld (snd (VoxelWorld_setWorld w a b c v)) a b c \<noteq> getWorld w a b c"
    unfolding f2 n2 old by (rule byte_changed[OF byte])
  have 3: "getWorld (snd (setWorld w a b c u)) a' b' c' = getWorld w a' b' c'"
    if "(a', b', c') \<noteq> (a, b, c)" for a' b' c'
    by (rule getWorld_update_other[OF inb that]) (simp add: setWorld_in(1)[OF inb])
  have 4: "getWorld (snd (VoxelWorld_setWorld w a b c u)) a' b' c' = getWorld w a' b' c'"
    if "(a', b', c') \<noteq> (a, b, c)" for a' b' c'
    by (rule getWorld_update_other[OF inb that]) (simp add: setWorld_in(2)[OF inb])
  have 5: "heights (snd (setWorld w a b c u)) = heights w"
    "heights (snd (VoxelWorld_setWorld w a b c u)) = heights w"
    by (simp_all add: setWorld_in[OF inb])
  show ?thesis
    apply (intro conjI allI impI)
    using o apply simp
    using o apply simp
    using o apply simp
    using 1 apply simp
    using 2 apply simp
    using 3 apply simp
    using 4 apply simp
    using 5 apply simp_all
    done
qed

text \<open>The theorem at the outside coordinate \<open>(-1, 0, 200)\<close> and the inside cell \<open>(3, 40, 5)\<close>.\<close>

theorem grid_bounds_witness:
  "((-1::int) < 0 \<or> (-1::int) \<ge> 128 \<or> (0::int) < 0 \<or> (0::int) \<ge> 128 \<or> (200::int) < 0 \<or> (200::int) \<ge> 128)
   \<and> (0::int) \<le> 3 \<and> (3::int) < 128 \<and> (0::int) \<le> 40 \<and> (40::int) < 128 \<and> (0::int) \<le> 5 \<and> (5::int) < 128
   \<and> (0::int) \<le> 1 \<and> (1::int) < 256
   \<and> getWorld \<lparr>world = (\<lambda>_. 1), heights = (\<lambda>_. 0), terrainNeedsRebuild = False\<rparr> (-1) 0 200 = 0
   \<and> fst (setWorld \<lparr>world = (\<lambda>_. 0), heights = (\<lambda>_. 0), terrainNeedsRebuild = False\<rparr> 3 40 5 1)
   \<and> \<not> fst (setWorld \<lparr>world = (\<lambda>_. 1), heights = (\<lambda>_. 0), terrainNeedsRebuild = False\<rparr> 3 40 5 1)"
proof -
  let ?w1 = "\<lparr>world = (\<lambda>_. 1::8 word), heights = (\<lambda>_. 0::32 word), terrainNeedsRebuild = False\<rparr>"
  let ?w0 = "\<lparr>world = (\<lambda>_. 0::8 word), heights = (\<lambda>_. 0::32 word), terrainNeedsRebuild = False\<rparr>"
  have o: "(-1::int) < 0 \<or> (-1::int) \<ge> 128 \<or> (0::int) < 0 \<or> (0::int) \<ge> 128 \<or> (200::int) < 0 \<or> (200::int) \<ge> 128"
    by simp
  have i: "(0::int) \<le> 3" "(3::int) < 128" "(0::int) \<le> 40" "(40::int) < 128" "(0::int) \<le> 5" "(5::int) < 128"
    by simp_all
  have v: "(0::int) \<le> 1" "(1::int) < 256" by simp_all
  have g: "getWorld (snd (setWorld ?w0 3 40 5 1)) 3 40 5 = 1" "getWorld ?w0 3 40 5 = 0"
    "getWorld (snd (setWorld ?w1 3 40 5 1)) 3 40 5 = 1" "getWorld ?w1 3 40 5 = 1"
    by (simp_all add: getWorld_def setWorld_def WORLD_SIZE_def)
  from grid_bounds[OF o i v, of ?w1 1] grid_bounds[OF o i v, of ?w0 1] g
  show ?thesis by simp
qed

subsection \<open>Reading the worlds of the scenarios\<close>

lemma getWorld_emptyWorld: "getWorld emptyWorld a b c = 0"
  by (simp add: getWorld_def emptyWorld_def)

lemma getWorld_withCell:
  assumes "inGrid c0"
  shows "getWorld (withCell c0 w) a b c = (if (a, b, c) = c0 then 1 else getWorld w a b c)"
proof -
  obtain a0 b0 c0' where c0: "c0 = (a0, b0, c0')" by (cases c0)
  have inb: "0 \<le> a0" "a0 < 128" "0 \<le> b0" "b0 < 128" "0 \<le> c0'" "c0' < 128"
    using assms by (simp_all add: inGrid_def c0)
  have w: "world (withCell c0 w) = (world w)(a0 + b0 * 128 + c0' * 128 * 128 := 1)"
    by (simp add: withCell_def c0 setWorld_in(1)[OF inb])
  show ?thesis
  proof (cases "(a, b, c) = c0")
    case True
    then show ?thesis using w by (simp add: c0 getWorld_in[OF inb])
  next
    case False
    then have "(a, b, c) \<noteq> (a0, b0, c0')" by (simp add: c0)
    from getWorld_update_other[OF inb this w] False show ?thesis by simp
  qed
qed

lemma getWorld_fold_withCell:
  "list_all inGrid cs \<Longrightarrow>
   getWorld (fold withCell cs w) a b c = (if (a, b, c) \<in> set cs then 1 else getWorld w a b c)"
proof (induction cs arbitrary: w)
  case Nil
  then show ?case by simp
next
  case (Cons c0 cs)
  then have i: "inGrid c0" and r: "list_all inGrid cs" by simp_all
  show ?case
    by (simp add: Cons.IH[OF r] getWorld_withCell[OF i])
qed

lemma getWorld_worldOf:
  "list_all inGrid cs \<Longrightarrow> getWorld (worldOf cs) a b c = (if (a, b, c) \<in> set cs then 1 else 0)"
  by (simp add: worldOf_def getWorld_fold_withCell getWorld_emptyWorld)

subsection \<open>Voxel against voxel\<close>

text \<open>
  Claim C10. \<^verbatim>\<open>handleVoxelCollision\<close> conserves the sum of the two velocities and the sum of
  the two positions: what is added to one body is subtracted from the other, for the
  impulse and for the separation push. This holds for every pair of bodies; when the
  centres are closer than 0.001 nothing is changed at all.
\<close>

theorem voxel_collision_conserves:
  "(case handleVoxelCollision a b of (a', b') \<Rightarrow>
      vadd (vel a') (vel b') = vadd (vel a) (vel b)
    \<and> vsub (vel a') (vel a) = vneg (vsub (vel b') (vel b))
    \<and> vadd (pos a') (pos b') = vadd (pos a) (pos b)
    \<and> vsub (pos a') (pos a) = vneg (vsub (pos b') (pos b)))"
  by (cases "pos a"; cases "pos b"; cases "vel a"; cases "vel b")
     (simp add: handleVoxelCollision_def Let_def vadd_def vsub_def vneg_def)

text \<open>When the centres are at least 0.001 apart the push is really applied.\<close>

lemma voxel_collision_applied:
  assumes "vdist (pos a) (pos b) \<ge> 0.001"
  shows "vsub (pos (fst (handleVoxelCollision a b))) (pos a) =
     (case vsub (pos a) (pos b) of (dx, dy, dz) \<Rightarrow>
        let d = vdist (pos a) (pos b); s = ((size a + size b) * 2 - d) * 0.51
        in (dx / d * s, dy / d * s, dz / d * s))"
  using assms
  by (cases "pos a"; cases "pos b"; cases "vel a"; cases "vel b")
     (simp add: handleVoxelCollision_def Let_def vadd_def vsub_def vneg_def vdist_def)

subsection \<open>The swept terrain collision\<close>

lemma searchStep_valid:
  "validAt this sp w ((lo + hi) / 2) \<Longrightarrow> searchStep this sp w i (lo, hi, ct) = ((lo + hi) / 2, hi, ct)"
  by (simp add: searchStep_def validAt_def Let_def)

lemma searchStep_invalid:
  "\<not> validAt this sp w ((lo + hi) / 2) \<Longrightarrow> searchStep this sp w i (lo, hi, ct) = (lo, (lo + hi) / 2, (lo + hi) / 2)"
  by (simp add: searchStep_def validAt_def Let_def)

lemma search_all_invalid:
  assumes "\<forall>t. lo < t \<and> t \<le> hi \<longrightarrow> \<not> validAt this sp w t" "lo < hi"
  shows "fold (searchStep this sp w) xs (lo, hi, hi)
         = (lo, lo + (hi - lo) / 2 ^ length xs, lo + (hi - lo) / 2 ^ length xs)"
  using assms
proof (induction xs arbitrary: hi)
  case Nil
  then show ?case by simp
next
  case (Cons i xs)
  let ?m = "(lo + hi) / 2"
  have m: "lo < ?m" "?m \<le> hi" using Cons.prems(2) by simp_all
  then have inv: "\<not> validAt this sp w ?m" using Cons.prems(1) by blast
  have "\<forall>t. lo < t \<and> t \<le> ?m \<longrightarrow> \<not> validAt this sp w t"
    using Cons.prems(1) m(2) by auto
  from Cons.IH[OF this m(1)]
  have "fold (searchStep this sp w) xs (lo, ?m, ?m)
         = (lo, lo + (?m - lo) / 2 ^ length xs, lo + (?m - lo) / 2 ^ length xs)" .
  moreover have "(?m - lo) / 2 ^ length xs = (hi - lo) / 2 ^ length (i # xs)"
    by (simp add: field_simps)
  ultimately show ?case
    by (simp add: searchStep_invalid[OF inv])
qed

lemma isPositionValid_centre:
  "isPositionValid this (x, y, z) w \<Longrightarrow> getWorld w \<lfloor>x\<rfloor> \<lfloor>y\<rfloor> \<lfloor>z\<rfloor> = 0"
  by (simp add: isPositionValid_def Let_def)

lemma falling_vel: "vel (applyGravity fallingVoxel 0.02) = (0, -10, 0)"
  "pos (applyGravity fallingVoxel 0.02) = (5.5, 5.5, 5.5)"
  "size (applyGravity fallingVoxel 0.02) = 0.45"
  by (simp_all add: applyGravity_def fallingVoxel_def debrisAt_def newMovingVoxel_def GRAVITY_def VOXEL_SIZE_def)

lemma buried_invalid:
  assumes "0 \<le> t" "t \<le> 0.02"
  shows "\<not> validAt (applyGravity fallingVoxel 0.02) (5.5, 5.5, 5.5) (worldOf [(5, 5, 5)]) t"
proof
  assume v: "validAt (applyGravity fallingVoxel 0.02) (5.5, 5.5, 5.5) (worldOf [(5, 5, 5)]) t"
  have "5 \<le> 5.5 - 10 * t" "5.5 - 10 * t < 6" using assms by simp_all
  then have f: "\<lfloor>5.5 - 10 * t\<rfloor> = 5" by (simp add: floor_eq_iff)
  have "posAt (5.5, 5.5, 5.5) (vel (applyGravity fallingVoxel 0.02)) t = (5.5, 5.5 - 10 * t, 5.5)"
    unfolding falling_vel by (simp add: posAt_def)
  with v have "isPositionValid (applyGravity fallingVoxel 0.02) (5.5, 5.5 - 10 * t, 5.5) (worldOf [(5, 5, 5)])"
    by (simp add: validAt_def)
  from isPositionValid_centre[OF this] f have "getWorld (worldOf [(5, 5, 5)]) 5 5 5 = 0"
    by simp
  then show False by (simp add: getWorld_worldOf inGrid_def)
qed

lemma sweep_buried_stays_invalid:
  "speedOf (applyGravity fallingVoxel 0.02) * 0.02 < 2 * size (applyGravity fallingVoxel 0.02)
   \<and> \<not> isPositionValid (applyGravity fallingVoxel 0.02)
          (posAt (pos (applyGravity fallingVoxel 0.02)) (vel (applyGravity fallingVoxel 0.02)) 0.02)
          (worldOf [(5, 5, 5)])
   \<and> \<not> isPositionValid (applyGravity fallingVoxel 0.02)
          (sweepPos (applyGravity fallingVoxel 0.02) 0.02 (worldOf [(5, 5, 5)])) (worldOf [(5, 5, 5)])"
proof -
  let ?v = "applyGravity fallingVoxel 0.02"
  let ?w = "worldOf [(5, 5, 5)]"
  have sp: "speedOf ?v * 0.02 < 2 * size ?v"
    unfolding speedOf_def falling_vel by simp
  have e: "\<not> isPositionValid ?v (posAt (pos ?v) (vel ?v) 0.02) ?w"
    using buried_invalid[of "0.02"] unfolding validAt_def falling_vel by simp
  have "\<forall>t. 0 < t \<and> t \<le> 0.02 \<longrightarrow> \<not> validAt ?v (5.5, 5.5, 5.5) ?w t"
    using buried_invalid by simp
  from search_all_invalid[OF this, of "[0..<20]"]
  have f: "fold (searchStep ?v (5.5, 5.5, 5.5) ?w) [0..<20] (0, 0.02, 0.02)
           = (0, 0.02 / 2 ^ 20, 0.02 / 2 ^ 20)"
    by simp
  have s: "sweepPos ?v 0.02 ?w = (5.5, 5.5, 5.5)"
    using e f unfolding sweepPos_def findCollisionTime_def falling_vel Let_def
    by (simp add: posAt_def)
  have "\<not> isPositionValid ?v (5.5, 5.5, 5.5) ?w"
    using buried_invalid[of 0] unfolding validAt_def falling_vel by (simp add: posAt_def)
  with sp e s show ?thesis by simp
qed

lemma search_invariant:
  assumes "validAt this sp w lo" "\<not> validAt this sp w hi" "lo \<le> hi"
  shows "\<exists>lo' hi'. fold (searchStep this sp w) xs (lo, hi, hi) = (lo', hi', hi')
           \<and> validAt this sp w lo' \<and> \<not> validAt this sp w hi'
           \<and> lo \<le> lo' \<and> lo' \<le> hi' \<and> hi' \<le> hi \<and> hi' - lo' = (hi - lo) / 2 ^ length xs"
  using assms
proof (induction xs arbitrary: lo hi)
  case Nil
  then show ?case by simp
next
  case (Cons i xs)
  let ?m = "(lo + hi) / 2"
  have m: "lo \<le> ?m" "?m \<le> hi" using Cons.prems(3) by simp_all
  show ?case
  proof (cases "validAt this sp w ?m")
    case True
    from Cons.IH[OF True Cons.prems(2) m(2)]
    obtain lo' hi' where r: "fold (searchStep this sp w) xs (?m, hi, hi) = (lo', hi', hi')"
      "validAt this sp w lo'" "\<not> validAt this sp w hi'"
      "?m \<le> lo'" "lo' \<le> hi'" "hi' \<le> hi" "hi' - lo' = (hi - ?m) / 2 ^ length xs"
      by blast
    have "hi' - lo' = (hi - lo) / 2 ^ length (i # xs)"
      using r(7) by (simp add: field_simps)
    moreover have "lo \<le> lo'" using m(1) r(4) by linarith
    ultimately show ?thesis
      using r(1,2,3,5,6) by (simp add: searchStep_valid[OF True])
  next
    case False
    from Cons.IH[OF Cons.prems(1) False m(1)]
    obtain lo' hi' where r: "fold (searchStep this sp w) xs (lo, ?m, ?m) = (lo', hi', hi')"
      "validAt this sp w lo'" "\<not> validAt this sp w hi'"
      "lo \<le> lo'" "lo' \<le> hi'" "hi' \<le> ?m" "hi' - lo' = (?m - lo) / 2 ^ length xs"
      by blast
    have "hi' - lo' = (hi - lo) / 2 ^ length (i # xs)"
      using r(7) by (simp add: field_simps)
    moreover have "hi' \<le> hi" using m(2) r(6) by linarith
    ultimately show ?thesis
      using r(1,2,3,4,5) by (simp add: searchStep_invalid[OF False])
  qed
qed

text \<open>
  Claim C3, as amended. If the body starts the tick outside solid terrain, the naive end
  position fails the validity test, and along the tick's segment the test is monotone
  (once a position fails, every later position of the tick fails: the body meets the
  terrain once and does not clip through a corner into free space again), then, for a
  tick of at most \<open>0.001 \<sqdot> 2\<^sup>2\<^sup>0\<close> seconds, the position resolved by the 20-step binary search
  with the back-off of 0.001 passes the validity test. No bound on the speed is needed.
\<close>

theorem sweep_valid_monotone:
  assumes dt: "0 < dt" "dt \<le> 0.001 * 2 ^ 20"
    and start: "isPositionValid this (pos this) w"
    and endp: "\<not> isPositionValid this (posAt (pos this) (vel this) dt) w"
    and mono: "\<forall>t t'. 0 \<le> t \<and> t \<le> t' \<and> t' \<le> dt
                 \<and> isPositionValid this (posAt (pos this) (vel this) t') w
                 \<longrightarrow> isPositionValid this (posAt (pos this) (vel this) t) w"
  shows "isPositionValid this (sweepPos this dt w) w"
proof -
  let ?sp = "pos this"
  have p0: "posAt ?sp (vel this) 0 = ?sp"
    by (cases "pos this"; cases "vel this") (simp add: posAt_def)
  have v0: "validAt this ?sp w 0" using start by (simp add: validAt_def p0)
  have vd: "\<not> validAt this ?sp w dt" using endp by (simp add: validAt_def)
  have "0 \<le> dt" using dt(1) by simp
  from search_invariant[OF v0 vd this, of "[0..<20]"]
  obtain lo' hi' where r: "fold (searchStep this ?sp w) [0..<20] (0, dt, dt) = (lo', hi', hi')"
      "validAt this ?sp w lo'" "\<not> validAt this ?sp w hi'"
      "0 \<le> lo'" "lo' \<le> hi'" "hi' \<le> dt" "hi' - lo' = (dt - 0) / 2 ^ length [0..<20]"
    by blast
  have gap: "hi' - lo' = dt / 2 ^ 20" using r(7) by simp
  have "0 < dt / 2 ^ 20" using dt(1) by simp
  then have pos_ct: "0 < hi'" using gap r(4) by linarith
  have "dt / 2 ^ 20 \<le> 0.001" using dt(2) by simp
  then have le: "hi' - 0.001 \<le> lo'" using gap by linarith
  let ?safe = "max 0 (hi' - 0.001)"
  have s1: "0 \<le> ?safe" by simp
  have s2: "?safe \<le> lo'" using le r(4) by simp
  have s3: "lo' \<le> dt" using r(5,6) by linarith
  have "isPositionValid this (posAt ?sp (vel this) ?safe) w"
    using mono s1 s2 s3 r(2) unfolding validAt_def by blast
  moreover have "sweepPos this dt w = posAt ?sp (vel this) ?safe"
    using endp pos_ct by (simp add: sweepPos_def findCollisionTime_def r(1) Let_def)
  ultimately show ?thesis by simp
qed

lemma falling_valid_iff:
  assumes "0 \<le> t" "t \<le> 0.02"
  shows "isPositionValid (applyGravity fallingVoxel 0.02)
           (posAt (pos (applyGravity fallingVoxel 0.02)) (vel (applyGravity fallingVoxel 0.02)) t)
           (worldOf [(5, 4, 5)]) \<longleftrightarrow> t \<le> 0.005"
proof -
  have "5 \<le> 5.5 - 10 * t" "5.5 - 10 * t < 6" using assms by simp_all
  then have f1: "\<lfloor>5.5 - 10 * t\<rfloor> = 5" by (simp add: floor_eq_iff)
  have "5 \<le> 5.95 - 10 * t" "5.95 - 10 * t < 6" using assms by simp_all
  then have f2: "\<lfloor>5.95 - 10 * t\<rfloor> = 5" by (simp add: floor_eq_iff)
  have f3: "\<lfloor>5.05 - 10 * t\<rfloor> = 4 \<longleftrightarrow> \<not> t \<le> 0.005"
    using assms by (simp add: floor_eq_iff) linarith
  have g: "\<And>a b c. getWorld (worldOf [(5, 4, 5)]) a b c = (if (a, b, c) \<in> set [(5, 4, 5)] then 1 else 0)"
    by (rule getWorld_worldOf) (simp add: inGrid_def)
  show ?thesis
    unfolding falling_vel posAt_def isPositionValid_def Let_def g
    using f1 f2 f3 by simp
qed

text \<open>The theorem for a body that falls by 0.2 onto the solid cell below it in one tick.\<close>

theorem sweep_valid_monotone_witness:
  "isPositionValid (applyGravity fallingVoxel 0.02)
     (sweepPos (applyGravity fallingVoxel 0.02) 0.02 (worldOf [(5, 4, 5)])) (worldOf [(5, 4, 5)])"
proof -
  let ?v = "applyGravity fallingVoxel 0.02"
  let ?w = "worldOf [(5, 4, 5)]"
  have dt: "(0::real) < 0.02" "(0.02::real) \<le> 0.001 * 2 ^ 20" by simp_all
  have p0: "posAt (pos ?v) (vel ?v) 0 = pos ?v"
    unfolding falling_vel by (simp add: posAt_def)
  have start: "isPositionValid ?v (pos ?v) ?w"
    using falling_valid_iff[of 0] by (simp only: p0) simp
  have endp: "\<not> isPositionValid ?v (posAt (pos ?v) (vel ?v) 0.02) ?w"
    using falling_valid_iff[of "0.02"] by simp
  have mono: "\<forall>t t'. 0 \<le> t \<and> t \<le> t' \<and> t' \<le> 0.02
                 \<and> isPositionValid ?v (posAt (pos ?v) (vel ?v) t') ?w
                 \<longrightarrow> isPositionValid ?v (posAt (pos ?v) (vel ?v) t) ?w"
  proof (intro allI impI)
    fix t t' :: real
    assume a: "0 \<le> t \<and> t \<le> t' \<and> t' \<le> 0.02 \<and> isPositionValid ?v (posAt (pos ?v) (vel ?v) t') ?w"
    then have "t' \<le> 0.005" using falling_valid_iff[of t'] by simp
    then have "t \<le> 0.005" using a by linarith
    then show "isPositionValid ?v (posAt (pos ?v) (vel ?v) t) ?w"
      using falling_valid_iff[of t] a by simp
  qed
  show ?thesis
    by (rule sweep_valid_monotone[OF dt start endp mono])
qed

lemma sweepPos_collision:
  assumes "\<not> isPositionValid this (posAt (pos this) (vel this) dt) w"
    and "fold (searchStep this (pos this) w) [0..<20] (0, dt, dt) = (lo, hi, ct)"
    and "0 < ct"
  shows "sweepPos this dt w = posAt (pos this) (vel this) (max 0 (ct - 0.001))"
  using assms by (simp add: sweepPos_def findCollisionTime_def Let_def)

lemma clipping_vel: "vel (applyGravity clippingVoxel 0.002) = (-150, 150, 0)"
  "pos (applyGravity clippingVoxel 0.002) = (6.5, 6.3, 0.5)"
  "size (applyGravity clippingVoxel 0.002) = 0.45"
  by (simp_all add: applyGravity_def clippingVoxel_def debrisAt_def newMovingVoxel_def GRAVITY_def VOXEL_SIZE_def)

lemma clipping_valid_iff:
  assumes "0 \<le> t" "t \<le> 0.002"
  shows "isPositionValid (applyGravity clippingVoxel 0.002)
           (posAt (pos (applyGravity clippingVoxel 0.002)) (vel (applyGravity clippingVoxel 0.002)) t)
           (worldOf [(5, 5, 0), (5, 7, 0)])
         \<longleftrightarrow> \<not> (1 / 3000 < t \<and> (t < 0.001 \<or> 1 / 600 \<le> t))"
proof -
  have fx: "\<lfloor>6.05 - 150 * t\<rfloor> = (if t \<le> 1 / 3000 then 6 else 5)"
    using assms by (simp add: floor_eq_iff)
  have fx1: "\<lfloor>6.5 - 150 * t\<rfloor> = 6" "\<lfloor>6.95 - 150 * t\<rfloor> = 6"
    using assms by (simp_all add: floor_eq_iff)
  have fy: "\<lfloor>5.85 + 150 * t\<rfloor> = (if t < 0.001 then 5 else 6)"
    using assms by (simp add: floor_eq_iff)
  have fy1: "\<lfloor>6.3 + 150 * t\<rfloor> = 6"
    using assms by (simp add: floor_eq_iff)
  have fy2: "\<lfloor>6.75 + 150 * t\<rfloor> = (if t < 1 / 600 then 6 else 7)"
    using assms by (simp add: floor_eq_iff)
  have g: "\<And>a b c. getWorld (worldOf [(5, 5, 0), (5, 7, 0)]) a b c
               = (if (a, b, c) \<in> set [(5, 5, 0), (5, 7, 0)] then 1 else 0)"
    by (rule getWorld_worldOf) (simp add: inGrid_def)
  show ?thesis
    unfolding clipping_vel posAt_def isPositionValid_def Let_def g
    using fx fx1 fy fy1 fy2 by simp
qed

lemma sweep_clipping_invalid:
  "speedOf (applyGravity clippingVoxel 0.002) * 0.002 < 2 * size (applyGravity clippingVoxel 0.002)
   \<and> isPositionValid (applyGravity clippingVoxel 0.002) (pos (applyGravity clippingVoxel 0.002))
          (worldOf [(5, 5, 0), (5, 7, 0)])
   \<and> \<not> isPositionValid (applyGravity clippingVoxel 0.002)
          (posAt (pos (applyGravity clippingVoxel 0.002)) (vel (applyGravity clippingVoxel 0.002)) 0.002)
          (worldOf [(5, 5, 0), (5, 7, 0)])
   \<and> \<not> isPositionValid (applyGravity clippingVoxel 0.002)
          (sweepPos (applyGravity clippingVoxel 0.002) 0.002 (worldOf [(5, 5, 0), (5, 7, 0)]))
          (worldOf [(5, 5, 0), (5, 7, 0)])"
proof -
  let ?v = "applyGravity clippingVoxel 0.002"
  let ?w = "worldOf [(5, 5, 0), (5, 7, 0)]"
  let ?sp = "pos ?v"
  have va: "\<And>t. 0 \<le> t \<Longrightarrow> t \<le> 0.002 \<Longrightarrow>
      validAt ?v ?sp ?w t \<longleftrightarrow> \<not> (1 / 3000 < t \<and> (t < 0.001 \<or> 1 / 600 \<le> t))"
    unfolding validAt_def by (rule clipping_valid_iff)
  have "sqrt ((150::real)\<^sup>2 + 150\<^sup>2) < sqrt (300\<^sup>2)"
    by (rule real_sqrt_less_mono) simp
  then have sp: "speedOf ?v * 0.002 < 2 * size ?v"
    unfolding speedOf_def clipping_vel by simp
  have p0: "posAt ?sp (vel ?v) 0 = ?sp"
    unfolding clipping_vel by (simp add: posAt_def)
  have start: "isPositionValid ?v ?sp ?w"
    using clipping_valid_iff[of 0] by (simp only: p0) simp
  have endp: "\<not> isPositionValid ?v (posAt ?sp (vel ?v) 0.002) ?w"
    using clipping_valid_iff[of "0.002"] by simp
  have mid: "validAt ?v ?sp ?w ((0 + 0.002) / 2)"
    using va[of "(0 + 0.002) / 2"] by simp
  have vd: "\<not> validAt ?v ?sp ?w 0.002" using endp by (simp add: validAt_def)
  have l: "[0..<20] = 0 # [1..<20]" by (simp add: upt_rec)
  have vm: "validAt ?v ?sp ?w 0.001" using mid by simp
  have "(0.001::real) \<le> 0.002" by simp
  from search_invariant[OF vm vd this, of "[1..<20]"]
  obtain lo' hi' where r: "fold (searchStep ?v ?sp ?w) [1..<20] (0.001, 0.002, 0.002) = (lo', hi', hi')"
      "validAt ?v ?sp ?w lo'" "\<not> validAt ?v ?sp ?w hi'"
      "0.001 \<le> lo'" "lo' \<le> hi'" "hi' \<le> 0.002" "hi' - lo' = (0.002 - 0.001) / 2 ^ length [1..<20]"
    by blast
  have f: "fold (searchStep ?v ?sp ?w) [0..<20] (0, 0.002, 0.002) = (lo', hi', hi')"
    using r(1) searchStep_valid[OF mid, of 0 "0.002"] by (simp add: l)
  have lo_lt: "lo' < 1 / 600"
    using va[of lo'] r(2,4,5,6) by simp
  have hi_ge: "1 / 600 \<le> hi'"
    using va[of hi'] r(3,4,5,6) by simp
  have "hi' - lo' < 0.0001" using r(7) by simp
  then have hi_lt: "hi' < 1 / 600 + 0.0001" using lo_lt by linarith
  let ?safe = "hi' - 0.001"
  have sb: "1 / 3000 < ?safe" "?safe < 0.001" "0 \<le> ?safe" "?safe \<le> 0.002"
    using hi_ge hi_lt by simp_all
  have "\<not> validAt ?v ?sp ?w ?safe"
    using va[OF sb(3,4)] sb(1,2) by simp
  moreover have "sweepPos ?v 0.002 ?w = posAt ?sp (vel ?v) ?safe"
  proof -
    have m: "max 0 (hi' - 0.001) = hi' - 0.001" using sb(3) by simp
    have "0 < hi'" using hi_ge by simp
    from sweepPos_collision[OF endp f this] show ?thesis by (simp only: m)
  qed
  ultimately have "\<not> isPositionValid ?v (sweepPos ?v 0.002 ?w) ?w"
    by (simp add: validAt_def)
  with sp start endp show ?thesis by simp
qed

text \<open>
  Claim C3 as stated fails. First input: a body whose centre is inside the solid cell
  \<open>(5, 5, 5)\<close>, speed 10, tick 0.02 (\<open>speed \<sqdot> dt = 0.2 < 0.9\<close>): every tested time is
  invalid, the collision time is \<open>0.02 / 2\<^sup>2\<^sup>0\<close>, the back-off clamps the safe time to 0 and
  the body stays where it was, inside the cell. Second input: a body that starts outside
  solid terrain, with \<open>speed \<sqdot> dt < 0.9\<close>, clips the corner of one solid cell and ends in
  the reach of another: the search converges on the second contact, and the back-off of
  0.001 seconds puts the body back into the clipped corner.
\<close>

theorem sweep_leaves_body_in_terrain:
  "(speedOf (applyGravity fallingVoxel 0.02) * 0.02 < 2 * size (applyGravity fallingVoxel 0.02)
   \<and> \<not> isPositionValid (applyGravity fallingVoxel 0.02)
          (posAt (pos (applyGravity fallingVoxel 0.02)) (vel (applyGravity fallingVoxel 0.02)) 0.02)
          (worldOf [(5, 5, 5)])
   \<and> \<not> isPositionValid (applyGravity fallingVoxel 0.02)
          (sweepPos (applyGravity fallingVoxel 0.02) 0.02 (worldOf [(5, 5, 5)])) (worldOf [(5, 5, 5)]))
 \<and> (speedOf (applyGravity clippingVoxel 0.002) * 0.002 < 2 * size (applyGravity clippingVoxel 0.002)
   \<and> isPositionValid (applyGravity clippingVoxel 0.002) (pos (applyGravity clippingVoxel 0.002))
          (worldOf [(5, 5, 0), (5, 7, 0)])
   \<and> \<not> isPositionValid (applyGravity clippingVoxel 0.002)
          (posAt (pos (applyGravity clippingVoxel 0.002)) (vel (applyGravity clippingVoxel 0.002)) 0.002)
          (worldOf [(5, 5, 0), (5, 7, 0)])
   \<and> \<not> isPositionValid (applyGravity clippingVoxel 0.002)
          (sweepPos (applyGravity clippingVoxel 0.002) 0.002 (worldOf [(5, 5, 0), (5, 7, 0)]))
          (worldOf [(5, 5, 0), (5, 7, 0)]))"
  using sweep_buried_stays_invalid sweep_clipping_invalid by (rule conjI)

subsection \<open>Settling\<close>

lemma in_cubeOffsets:
  "(dx, dy, dz) \<in> set (cubeOffsets r) \<longleftrightarrow> \<bar>dx\<bar> \<le> r \<and> \<bar>dy\<bar> \<le> r \<and> \<bar>dz\<bar> \<le> r"
proof -
  have "(dx, dy, dz) \<in> set (cubeOffsets r) \<longleftrightarrow>
        dx \<in> set (loopRange (- r) (r + 1)) \<and> dy \<in> set (loopRange (- r) (r + 1))
        \<and> dz \<in> set (loopRange (- r) (r + 1))"
    by (auto simp: cubeOffsets_def)
  also have "\<dots> \<longleftrightarrow> \<bar>dx\<bar> \<le> r \<and> \<bar>dy\<bar> \<le> r \<and> \<bar>dz\<bar> \<le> r"
    unfolding set_loopRange by (simp add: abs_le_iff) linarith
  finally show ?thesis .
qed

lemma max3_intro: fixes dx dy dz r :: int
  assumes "\<bar>dx\<bar> \<le> r" "\<bar>dy\<bar> \<le> r" "\<bar>dz\<bar> \<le> r" "\<bar>dx\<bar> = r \<or> \<bar>dy\<bar> = r \<or> \<bar>dz\<bar> = r"
  shows "max \<bar>dx\<bar> (max \<bar>dy\<bar> \<bar>dz\<bar>) = r"
  using assms by (auto simp: max_def)

lemma max3_elim: fixes a b c r :: int
  assumes "max a (max b c) = r"
  shows "a \<le> r" "b \<le> r" "c \<le> r" "a = r \<or> b = r \<or> c = r"
  using assms by (auto simp: max_def split: if_splits)


lemma shellCandidates_entries:
  "shellCandidates w tx ty tz r = concat (map (shellEntry w tx ty tz r) (cubeOffsets r))"
proof -
  have "shellEntry w tx ty tz r = (\<lambda>d. case d of (dx, dy, dz) \<Rightarrow>
        if \<bar>dx\<bar> = r \<or> \<bar>dy\<bar> = r \<or> \<bar>dz\<bar> = r
        then let x = tx + dx; y = ty + dy; z = tz + dz
             in if x \<ge> 0 \<and> x < WORLD_SIZE \<and> y \<ge> 0 \<and> y < WORLD_SIZE \<and> z \<ge> 0 \<and> z < WORLD_SIZE
                   \<and> getWorld w x y z = 0
                then [((x, y, z), sqrt (real_of_int (dx * dx + dy * dy + dz * dz)))]
                else []
        else [])"
    by (rule ext) (simp add: shellEntry_def)
  then show ?thesis by (simp only: shellCandidates_def)
qed

lemma in_shellEntry:
  "(c, d) \<in> set (shellEntry w tx ty tz r (dx, dy, dz)) \<longleftrightarrow>
     (\<bar>dx\<bar> = r \<or> \<bar>dy\<bar> = r \<or> \<bar>dz\<bar> = r) \<and> c = (tx + dx, ty + dy, tz + dz) \<and> emptyCell w c
     \<and> d = sqrt (real_of_int (dx * dx + dy * dy + dz * dz))"
  by (cases c) (auto simp: shellEntry_def Let_def emptyCell_def inGrid_def cellAt_def WORLD_SIZE_def)

lemma in_shellCandidates:
  assumes "0 \<le> r"
  shows "(c, d) \<in> set (shellCandidates w tx ty tz r) \<longleftrightarrow>
     emptyCell w c \<and> cheb (tx, ty, tz) c = r \<and> d = eucl (tx, ty, tz) c"
proof -
  obtain x y z where c: "c = (x, y, z)" by (cases c)
  have "(c, d) \<in> set (shellCandidates w tx ty tz r) \<longleftrightarrow>
        (\<exists>dx dy dz. (dx, dy, dz) \<in> set (cubeOffsets r) \<and> (c, d) \<in> set (shellEntry w tx ty tz r (dx, dy, dz)))"
    unfolding shellCandidates_entries by auto
  also have "\<dots> \<longleftrightarrow> (\<exists>dx dy dz. \<bar>dx\<bar> \<le> r \<and> \<bar>dy\<bar> \<le> r \<and> \<bar>dz\<bar> \<le> r \<and> (\<bar>dx\<bar> = r \<or> \<bar>dy\<bar> = r \<or> \<bar>dz\<bar> = r)
           \<and> c = (tx + dx, ty + dy, tz + dz) \<and> emptyCell w c
           \<and> d = sqrt (real_of_int (dx * dx + dy * dy + dz * dz)))"
    unfolding in_cubeOffsets in_shellEntry by blast
  also have "\<dots> \<longleftrightarrow> emptyCell w c \<and> cheb (tx, ty, tz) c = r \<and> d = eucl (tx, ty, tz) c"
  proof
    assume "\<exists>dx dy dz. \<bar>dx\<bar> \<le> r \<and> \<bar>dy\<bar> \<le> r \<and> \<bar>dz\<bar> \<le> r \<and> (\<bar>dx\<bar> = r \<or> \<bar>dy\<bar> = r \<or> \<bar>dz\<bar> = r)
           \<and> c = (tx + dx, ty + dy, tz + dz) \<and> emptyCell w c
           \<and> d = sqrt (real_of_int (dx * dx + dy * dy + dz * dz))"
    then obtain dx dy dz where h: "\<bar>dx\<bar> \<le> r" "\<bar>dy\<bar> \<le> r" "\<bar>dz\<bar> \<le> r" "\<bar>dx\<bar> = r \<or> \<bar>dy\<bar> = r \<or> \<bar>dz\<bar> = r"
      "c = (tx + dx, ty + dy, tz + dz)" "emptyCell w c"
      "d = sqrt (real_of_int (dx * dx + dy * dy + dz * dz))" by blast
    have m: "max \<bar>dx\<bar> (max \<bar>dy\<bar> \<bar>dz\<bar>) = r" by (rule max3_intro[OF h(1-4)])
    have "cheb (tx, ty, tz) c = r" using m by (simp add: cheb_def h(5))
    moreover have "d = eucl (tx, ty, tz) c" by (simp add: eucl_def h(5,7))
    ultimately show "emptyCell w c \<and> cheb (tx, ty, tz) c = r \<and> d = eucl (tx, ty, tz) c"
      using h(6) by simp
  next
    assume a: "emptyCell w c \<and> cheb (tx, ty, tz) c = r \<and> d = eucl (tx, ty, tz) c"
    let ?dx = "x - tx" and ?dy = "y - ty" and ?dz = "z - tz"
    have m: "max \<bar>?dx\<bar> (max \<bar>?dy\<bar> \<bar>?dz\<bar>) = r" using a by (simp add: cheb_def c)
    have 1: "\<bar>?dx\<bar> \<le> r" by (rule max3_elim(1)[OF m])
    have 2: "\<bar>?dy\<bar> \<le> r" by (rule max3_elim(2)[OF m])
    have 3: "\<bar>?dz\<bar> \<le> r" by (rule max3_elim(3)[OF m])
    have 4: "\<bar>?dx\<bar> = r \<or> \<bar>?dy\<bar> = r \<or> \<bar>?dz\<bar> = r" by (rule max3_elim(4)[OF m])
    have 5: "c = (tx + ?dx, ty + ?dy, tz + ?dz)" by (simp add: c)
    have 6: "d = sqrt (real_of_int (?dx * ?dx + ?dy * ?dy + ?dz * ?dz))"
      using a by (simp add: eucl_def c)
    from 1 2 3 4 5 6 a
    show "\<exists>dx dy dz. \<bar>dx\<bar> \<le> r \<and> \<bar>dy\<bar> \<le> r \<and> \<bar>dz\<bar> \<le> r \<and> (\<bar>dx\<bar> = r \<or> \<bar>dy\<bar> = r \<or> \<bar>dz\<bar> = r)
           \<and> c = (tx + dx, ty + dy, tz + dz) \<and> emptyCell w c
           \<and> d = sqrt (real_of_int (dx * dx + dy * dy + dz * dz))"
      by blast
  qed
  finally show ?thesis .
qed

lemma sort_key_head:
  assumes "sort_key f xs = c # cs"
  shows "c \<in> set xs \<and> (\<forall>y \<in> set xs. f c \<le> f y)"
proof -
  have s: "sorted (map f (c # cs))" using assms sorted_sort_key[of f xs] by simp
  have e: "set (c # cs) = set xs" using assms set_sort[of f xs] by simp
  have "c \<in> set xs" using e by auto
  moreover have "\<forall>y \<in> set xs. f c \<le> f y"
  proof
    fix y assume "y \<in> set xs"
    then have "y = c \<or> y \<in> set cs" using e by auto
    then show "f c \<le> f y" using s by auto
  qed
  ultimately show ?thesis by simp
qed

lemma sort_key_Nil_iff: "sort_key f xs = [] \<longleftrightarrow> xs = []"
  using length_sort[of f xs] by (metis length_0_conv)

lemma searchShells_None:
  assumes "\<forall>r \<in> set rs. 0 \<le> r"
  shows "searchShells w tx ty tz rs = None \<longleftrightarrow>
         (\<forall>c. emptyCell w c \<longrightarrow> cheb (tx, ty, tz) c \<notin> set rs)"
  using assms
proof (induction rs)
  case Nil
  then show ?case by simp
next
  case (Cons r rs)
  have r0: "0 \<le> r" using Cons.prems by simp
  have rs0: "\<forall>r \<in> set rs. 0 \<le> r" using Cons.prems by simp
  show ?case
  proof (cases "shellCandidates w tx ty tz r = []")
    case True
    then have "sort_key snd (shellCandidates w tx ty tz r) = []" by simp
    then have 1: "searchShells w tx ty tz (r # rs) = searchShells w tx ty tz rs" by simp
    have "\<forall>c. emptyCell w c \<longrightarrow> cheb (tx, ty, tz) c \<noteq> r"
    proof (intro allI impI notI)
      fix c assume "emptyCell w c" "cheb (tx, ty, tz) c = r"
      then have "(c, eucl (tx, ty, tz) c) \<in> set (shellCandidates w tx ty tz r)"
        by (simp add: in_shellCandidates[OF r0])
      with True show False by simp
    qed
    then show ?thesis using Cons.IH[OF rs0] 1 by auto
  next
    case False
    then obtain e es where es: "shellCandidates w tx ty tz r = e # es" by (cases "shellCandidates w tx ty tz r") auto
    have "sort_key snd (shellCandidates w tx ty tz r) \<noteq> []" using False by (simp add: sort_key_Nil_iff)
    then obtain c cs where "sort_key snd (shellCandidates w tx ty tz r) = c # cs"
      by (cases "sort_key snd (shellCandidates w tx ty tz r)") auto
    then have 1: "searchShells w tx ty tz (r # rs) \<noteq> None" by simp
    obtain c0 d0 where e: "e = (c0, d0)" by (cases e)
    have "(c0, d0) \<in> set (shellCandidates w tx ty tz r)" using es e by simp
    then have "emptyCell w c0 \<and> cheb (tx, ty, tz) c0 = r" by (simp add: in_shellCandidates[OF r0])
    then have "\<not> (\<forall>c. emptyCell w c \<longrightarrow> cheb (tx, ty, tz) c \<notin> set (r # rs))"
      by (metis list.set_intros(1))
    then show ?thesis using 1 by blast
  qed
qed

lemma searchShells_Some:
  assumes "\<forall>r \<in> set rs. 0 \<le> r" "sorted rs" "distinct rs"
    and "searchShells w tx ty tz rs = Some c"
  shows "emptyCell w c \<and> cheb (tx, ty, tz) c \<in> set rs
       \<and> (\<forall>c'. emptyCell w c' \<and> cheb (tx, ty, tz) c' \<in> set rs \<longrightarrow>
              cheb (tx, ty, tz) c \<le> cheb (tx, ty, tz) c'
              \<and> (cheb (tx, ty, tz) c' = cheb (tx, ty, tz) c \<longrightarrow> eucl (tx, ty, tz) c \<le> eucl (tx, ty, tz) c'))"
  using assms
proof (induction rs)
  case Nil
  then show ?case by simp
next
  case (Cons r rs)
  have r0: "0 \<le> r" using Cons.prems(1) by simp
  have rs0: "\<forall>r \<in> set rs. 0 \<le> r" using Cons.prems(1) by simp
  have srt: "sorted rs" "distinct rs" using Cons.prems(2,3) by simp_all
  have lt: "\<forall>r' \<in> set rs. r < r'" using Cons.prems(2,3) by (auto simp: less_le)
  show ?case
  proof (cases "sort_key snd (shellCandidates w tx ty tz r)")
    case Nil
    then have 1: "searchShells w tx ty tz rs = Some c" using Cons.prems(4) by simp
    have emp: "shellCandidates w tx ty tz r = []" using Nil by (simp add: sort_key_Nil_iff)
    have none: "\<And>c'. emptyCell w c' \<Longrightarrow> cheb (tx, ty, tz) c' \<noteq> r"
    proof
      fix c' assume "emptyCell w c'" "cheb (tx, ty, tz) c' = r"
      then have "(c', eucl (tx, ty, tz) c') \<in> set (shellCandidates w tx ty tz r)"
        by (simp add: in_shellCandidates[OF r0])
      with emp show False by simp
    qed
    from Cons.IH[OF rs0 srt 1]
    have ih: "emptyCell w c" "cheb (tx, ty, tz) c \<in> set rs"
      "\<And>c'. emptyCell w c' \<Longrightarrow> cheb (tx, ty, tz) c' \<in> set rs \<Longrightarrow>
              cheb (tx, ty, tz) c \<le> cheb (tx, ty, tz) c'
              \<and> (cheb (tx, ty, tz) c' = cheb (tx, ty, tz) c \<longrightarrow> eucl (tx, ty, tz) c \<le> eucl (tx, ty, tz) c')"
      by blast+
    show ?thesis
    proof (intro conjI allI impI)
      show "emptyCell w c" by (rule ih(1))
      show "cheb (tx, ty, tz) c \<in> set (r # rs)" using ih(2) by simp
    next
      fix c' assume a: "emptyCell w c' \<and> cheb (tx, ty, tz) c' \<in> set (r # rs)"
      then have "cheb (tx, ty, tz) c' \<in> set rs" using none[of c'] by auto
      from ih(3)[OF _ this] a show "cheb (tx, ty, tz) c \<le> cheb (tx, ty, tz) c'" by blast
    next
      fix c' assume a: "emptyCell w c' \<and> cheb (tx, ty, tz) c' \<in> set (r # rs)"
        and b: "cheb (tx, ty, tz) c' = cheb (tx, ty, tz) c"
      then have "cheb (tx, ty, tz) c' \<in> set rs" using none[of c'] by auto
      from ih(3)[OF _ this] a b show "eucl (tx, ty, tz) c \<le> eucl (tx, ty, tz) c'" by blast
    qed
  next
    case (Cons e es)
    then have c: "c = fst e" using Cons.prems(4) by simp
    from sort_key_head[OF Cons]
    have h: "e \<in> set (shellCandidates w tx ty tz r)"
      "\<And>y. y \<in> set (shellCandidates w tx ty tz r) \<Longrightarrow> snd e \<le> snd y" by blast+
    have "(c, snd e) \<in> set (shellCandidates w tx ty tz r)" using h(1) c by simp
    then have ce: "emptyCell w c" "cheb (tx, ty, tz) c = r" "snd e = eucl (tx, ty, tz) c"
      by (simp_all add: in_shellCandidates[OF r0])
    show ?thesis
    proof (intro conjI allI impI)
      show "emptyCell w c" by (rule ce(1))
      show "cheb (tx, ty, tz) c \<in> set (r # rs)" using ce(2) by simp
    next
      fix c' assume a: "emptyCell w c' \<and> cheb (tx, ty, tz) c' \<in> set (r # rs)"
      then show "cheb (tx, ty, tz) c \<le> cheb (tx, ty, tz) c'" using lt ce(2) by auto
    next
      fix c' assume a: "emptyCell w c' \<and> cheb (tx, ty, tz) c' \<in> set (r # rs)"
        and b: "cheb (tx, ty, tz) c' = cheb (tx, ty, tz) c"
      then have "(c', eucl (tx, ty, tz) c') \<in> set (shellCandidates w tx ty tz r)"
        using ce(2) by (simp add: in_shellCandidates[OF r0])
      from h(2)[OF this] show "eucl (tx, ty, tz) c \<le> eucl (tx, ty, tz) c'" by (simp add: ce(3))
    qed
  qed
qed

lemma sorted_loopRange: "sorted (loopRange a b)"
  unfolding loopRange_def sorted_map
  by (rule sorted_wrt_mono_rel[OF _ sorted_upt]) simp

lemma cheb_nonneg: "0 \<le> cheb t c"
  by (cases t; cases c) (simp add: cheb_def)

lemma cheb_zero_iff: "cheb t c = 0 \<longleftrightarrow> c = t"
  by (cases t; cases c) (auto simp: cheb_def max_def split: if_splits)

lemma eucl_self: "eucl t t = 0"
  by (cases t) (simp add: eucl_def)

lemma eucl_nonneg: "0 \<le> eucl t c"
  by (cases t; cases c) (simp add: eucl_def)

lemma findClosest_unfold:
  "findClosestEmptyPosition w tx ty tz m =
     (if emptyCell w (tx, ty, tz) then Some (tx, ty, tz)
      else searchShells w tx ty tz (loopRange 1 (m + 1)))"
  by (auto simp: findClosestEmptyPosition_def emptyCell_def inGrid_def cellAt_def WORLD_SIZE_def)

lemma findClosest_None:
  "findClosestEmptyPosition w tx ty tz 4 = None \<longleftrightarrow> \<not> (\<exists>c. emptyCell w c \<and> cheb (tx, ty, tz) c \<le> 4)"
proof -
  let ?t = "(tx, ty, tz)"
  have rs: "\<forall>r \<in> set (loopRange 1 (4 + 1)). 0 \<le> r" by (simp add: set_loopRange)
  show ?thesis
  proof (cases "emptyCell w ?t")
    case True
    moreover have "cheb ?t ?t \<le> 4" by (simp add: cheb_def)
    ultimately have "\<exists>c. emptyCell w c \<and> cheb ?t c \<le> 4" by blast
    moreover have "findClosestEmptyPosition w tx ty tz 4 \<noteq> None"
      using True by (simp add: findClosest_unfold)
    ultimately show ?thesis by simp
  next
    case False
    then have f: "findClosestEmptyPosition w tx ty tz 4 = searchShells w tx ty tz (loopRange 1 (4 + 1))"
      by (simp only: findClosest_unfold) simp
    have "(\<forall>c. emptyCell w c \<longrightarrow> cheb ?t c \<notin> set (loopRange 1 (4 + 1)))
          \<longleftrightarrow> \<not> (\<exists>c. emptyCell w c \<and> cheb ?t c \<le> 4)"
    proof
      assume a: "\<forall>c. emptyCell w c \<longrightarrow> cheb ?t c \<notin> set (loopRange 1 (4 + 1))"
      show "\<not> (\<exists>c. emptyCell w c \<and> cheb ?t c \<le> 4)"
      proof
        assume "\<exists>c. emptyCell w c \<and> cheb ?t c \<le> 4"
        then obtain c where c: "emptyCell w c" "cheb ?t c \<le> 4" by blast
        have "c \<noteq> ?t" using c(1) False by auto
        then have "cheb ?t c \<noteq> 0" by (simp add: cheb_zero_iff)
        then have "1 \<le> cheb ?t c" using cheb_nonneg[of ?t c] by linarith
        then have "cheb ?t c \<in> set (loopRange 1 (4 + 1))" using c(2) by (simp add: set_loopRange)
        with a c(1) show False by blast
      qed
    next
      assume a: "\<not> (\<exists>c. emptyCell w c \<and> cheb ?t c \<le> 4)"
      show "\<forall>c. emptyCell w c \<longrightarrow> cheb ?t c \<notin> set (loopRange 1 (4 + 1))"
      proof (intro allI impI notI)
        fix c assume "emptyCell w c" "cheb ?t c \<in> set (loopRange 1 (4 + 1))"
        then have "emptyCell w c \<and> cheb ?t c \<le> 4" by (simp add: set_loopRange)
        with a show False by blast
      qed
    qed
    then show ?thesis
      unfolding f searchShells_None[OF rs] .
  qed
qed

lemma findClosest_Some:
  assumes "findClosestEmptyPosition w tx ty tz 4 = Some c"
  shows "emptyCell w c \<and> cheb (tx, ty, tz) c \<le> 4
       \<and> (\<forall>c'. emptyCell w c' \<longrightarrow>
              cheb (tx, ty, tz) c \<le> cheb (tx, ty, tz) c'
              \<and> (cheb (tx, ty, tz) c' = cheb (tx, ty, tz) c \<longrightarrow> eucl (tx, ty, tz) c \<le> eucl (tx, ty, tz) c'))"
proof -
  let ?t = "(tx, ty, tz)"
  have rs: "\<forall>r \<in> set (loopRange 1 (4 + 1)). 0 \<le> r" by (simp add: set_loopRange)
  show ?thesis
  proof (cases "emptyCell w ?t")
    case True
    then have c: "c = ?t" using assms by (simp add: findClosest_unfold)
    have "cheb ?t ?t = 0" by (simp add: cheb_zero_iff)
    then show ?thesis
      using True cheb_nonneg[of ?t] eucl_nonneg[of ?t] by (simp add: c eucl_self)
  next
    case False
    then have f: "searchShells w tx ty tz (loopRange 1 (4 + 1)) = Some c"
      using assms by (simp only: findClosest_unfold) simp
    from searchShells_Some[OF rs sorted_loopRange distinct_loopRange f]
    have s: "emptyCell w c" "cheb ?t c \<in> set (loopRange 1 (4 + 1))"
      "\<And>c'. emptyCell w c' \<Longrightarrow> cheb ?t c' \<in> set (loopRange 1 (4 + 1)) \<Longrightarrow>
              cheb ?t c \<le> cheb ?t c' \<and> (cheb ?t c' = cheb ?t c \<longrightarrow> eucl ?t c \<le> eucl ?t c')"
      by blast+
    have c4: "1 \<le> cheb ?t c" "cheb ?t c \<le> 4" using s(2) by (simp_all add: set_loopRange)
    have "cheb ?t c \<le> cheb ?t c' \<and> (cheb ?t c' = cheb ?t c \<longrightarrow> eucl ?t c \<le> eucl ?t c')"
      if e: "emptyCell w c'" for c'
    proof (cases "cheb ?t c' \<le> 4")
      case True
      have "c' \<noteq> ?t" using e False by auto
      then have "cheb ?t c' \<noteq> 0" by (simp add: cheb_zero_iff)
      then have "1 \<le> cheb ?t c'" using cheb_nonneg[of ?t c'] by linarith
      then have "cheb ?t c' \<in> set (loopRange 1 (4 + 1))" using True by (simp add: set_loopRange)
      from s(3)[OF e this] show ?thesis .
    next
      case False
      then show ?thesis using c4(2) by linarith
    qed
    then show ?thesis using s(1) c4(2) by blast
  qed
qed

lemma Server_setWorld_fields:
  "grid (snd (Server_setWorld srv x y z v)) = snd (VoxelWorld_setWorld (grid srv) x y z v)"
  "movingVoxels (snd (Server_setWorld srv x y z v)) = movingVoxels srv"
  "players (snd (Server_setWorld srv x y z v)) = players srv"
  "randoms (snd (Server_setWorld srv x y z v)) = randoms srv"
  "drawn (snd (Server_setWorld srv x y z v)) = drawn srv"
  "useChunkedMesh (snd (Server_setWorld srv x y z v)) = useChunkedMesh srv"
  by (simp_all add: Server_setWorld_def Let_def split: prod.splits)

lemma cellAt_setWorld:
  assumes "inGrid c"
  shows "cellAt (snd (VoxelWorld_setWorld w (fst c) (fst (snd c)) (snd (snd c)) v)) c' =
           (if c' = c then word_of_int v else cellAt w c')"
proof -
  obtain a b cc where c: "c = (a, b, cc)" by (cases c)
  obtain a' b' cc' where c': "c' = (a', b', cc')" by (cases c')
  have inb: "0 \<le> a" "a < 128" "0 \<le> b" "b < 128" "0 \<le> cc" "cc < 128"
    using assms by (simp_all add: inGrid_def c)
  show ?thesis
  proof (cases "c' = c")
    case True
    then show ?thesis
      by (simp add: c c' cellAt_def setWorld_in(2)[OF inb] getWorld_in[OF inb])
  next
    case False
    then have ne: "(a', b', cc') \<noteq> (a, b, cc)" by (simp add: c c')
    have "world (snd (VoxelWorld_setWorld w a b cc v)) = (world w)(a + b * 128 + cc * 128 * 128 := word_of_int v)"
      by (simp add: setWorld_in(2)[OF inb])
    from getWorld_update_other[OF inb ne this] ne show ?thesis
      by (auto simp: c c' cellAt_def)
  qed
qed

text \<open>
  Claim C7. When a moving body attempts to settle (\<^verbatim>\<open>settleToGrid\<close>): if some in-bounds
  empty cell lies at the rounded target or in one of the cubic shells of radius 1 to 4
  around it, the attempt returns \<^verbatim>\<open>'settled'\<close>, exactly one cell changes, that cell was
  empty and is now solid, it lies in the nearest shell that has an empty cell (the target
  itself is shell 0) and is Euclidean-nearest among the empty cells of that shell, and the
  loop of \<^verbatim>\<open>updateMovingVoxels\<close> removes the body (index \<open>i\<close>) from the moving list.
  Otherwise the attempt returns \<^verbatim>\<open>'continue'\<close>, the whole server state is unchanged and the
  body stays in the list.
\<close>

theorem settle_places_one_cell_or_nothing:
  "(case settleToGrid this srv of (result, srv') \<Rightarrow>
     if (\<exists>c. emptyCell (grid srv) c \<and> cheb (settleTarget this) c \<le> 4)
     then result = Settled
        \<and> (\<exists>c. emptyCell (grid srv) c
             \<and> cellAt (grid srv') c = 1
             \<and> (\<forall>c'. c' \<noteq> c \<longrightarrow> cellAt (grid srv') c' = cellAt (grid srv) c')
             \<and> (\<forall>c'. emptyCell (grid srv) c' \<longrightarrow>
                    cheb (settleTarget this) c \<le> cheb (settleTarget this) c'
                  \<and> (cheb (settleTarget this) c' = cheb (settleTarget this) c
                       \<longrightarrow> eucl (settleTarget this) c \<le> eucl (settleTarget this) c')))
        \<and> movingVoxels (removeFinished result i srv') = splice1 i (movingVoxels srv)
     else result = Continue \<and> srv' = srv \<and> removeFinished result i srv' = srv)"
proof -
  obtain p0 p1 p2 where p: "pos this = (p0, p1, p2)" by (cases "pos this")
  let ?tx = "js_round (p0 - 0.5)" and ?ty = "js_round (p1 - 0.5)" and ?tz = "js_round (p2 - 0.5)"
  have t: "settleTarget this = (?tx, ?ty, ?tz)" by (simp add: settleTarget_def p)
  show ?thesis
  proof (cases "findClosestEmptyPosition (grid srv) ?tx ?ty ?tz 4")
    case None
    then have "\<not> (\<exists>c. emptyCell (grid srv) c \<and> cheb (settleTarget this) c \<le> 4)"
      by (simp add: findClosest_None t)
    moreover have "settleToGrid this srv = (Continue, srv)"
      using None by (simp add: settleToGrid_def p Let_def)
    ultimately show ?thesis by (simp add: removeFinished_def)
  next
    case (Some c)
    obtain gx gy gz where c: "c = (gx, gy, gz)" by (cases c)
    from findClosest_Some[OF Some]
    have f: "emptyCell (grid srv) c" "cheb (settleTarget this) c \<le> 4"
      "\<forall>c'. emptyCell (grid srv) c' \<longrightarrow>
              cheb (settleTarget this) c \<le> cheb (settleTarget this) c'
              \<and> (cheb (settleTarget this) c' = cheb (settleTarget this) c
                    \<longrightarrow> eucl (settleTarget this) c \<le> eucl (settleTarget this) c')"
      unfolding t by blast+
    have ex: "\<exists>c. emptyCell (grid srv) c \<and> cheb (settleTarget this) c \<le> 4" using f(1,2) by blast
    obtain result srv' where r: "settleToGrid this srv = (result, srv')" by (cases "settleToGrid this srv")
    have res: "result = Settled"
      and g: "grid srv' = snd (VoxelWorld_setWorld (grid srv) gx gy gz 1)"
      and mv: "movingVoxels srv' = movingVoxels srv"
      using r Some by (auto simp: settleToGrid_def p Let_def c Server_setWorld_fields)
    have ing: "inGrid c" using f(1) by (simp add: emptyCell_def)
    have ca: "\<And>c'. cellAt (grid srv') c' = (if c' = c then 1 else cellAt (grid srv) c')"
      using cellAt_setWorld[OF ing, of "grid srv" 1] by (simp add: g c)
    have "cellAt (grid srv') c = 1" "\<forall>c'. c' \<noteq> c \<longrightarrow> cellAt (grid srv') c' = cellAt (grid srv) c'"
      by (simp_all add: ca)
    with f(1,3) have "\<exists>c. emptyCell (grid srv) c
             \<and> cellAt (grid srv') c = 1
             \<and> (\<forall>c'. c' \<noteq> c \<longrightarrow> cellAt (grid srv') c' = cellAt (grid srv) c')
             \<and> (\<forall>c'. emptyCell (grid srv) c' \<longrightarrow>
                    cheb (settleTarget this) c \<le> cheb (settleTarget this) c'
                  \<and> (cheb (settleTarget this) c' = cheb (settleTarget this) c
                       \<longrightarrow> eucl (settleTarget this) c \<le> eucl (settleTarget this) c'))"
      by blast
    moreover have "movingVoxels (removeFinished result i srv') = splice1 i (movingVoxels srv)"
      by (simp add: removeFinished_def res mv)
    ultimately show ?thesis using ex res by (simp add: r)
  qed
qed

text \<open>The theorem for a body resting in the solid cell \<open>(5, 5, 5)\<close>, whose neighbour
  \<open>(4, 5, 5)\<close> is empty.\<close>

theorem settle_places_one_cell_or_nothing_witness:
  "fst (settleToGrid restingVoxel (serverWith (worldOf [(5, 5, 5)]) [] [restingVoxel] (\<lambda>_. 0))) = Settled
   \<and> movingVoxels (removeFinished
        (fst (settleToGrid restingVoxel (serverWith (worldOf [(5, 5, 5)]) [] [restingVoxel] (\<lambda>_. 0)))) 0
        (snd (settleToGrid restingVoxel (serverWith (worldOf [(5, 5, 5)]) [] [restingVoxel] (\<lambda>_. 0))))) = []"
proof -
  let ?srv = "serverWith (worldOf [(5, 5, 5)]) [] [restingVoxel] (\<lambda>_. 0)"
  have g: "grid ?srv = worldOf [(5, 5, 5)]" and m: "movingVoxels ?srv = [restingVoxel]"
    by (simp_all add: serverWith_def)
  have "emptyCell (grid ?srv) (4, 5, 5)"
    by (simp add: g emptyCell_def cellAt_def inGrid_def getWorld_worldOf)
  moreover have "settleTarget restingVoxel = (5, 5, 5)"
    by (simp add: settleTarget_def restingVoxel_def debrisAt_def newMovingVoxel_def js_round_def)
  then have "cheb (settleTarget restingVoxel) (4, 5, 5) \<le> 4" by (simp add: cheb_def)
  ultimately have ex: "\<exists>c. emptyCell (grid ?srv) c \<and> cheb (settleTarget restingVoxel) c \<le> 4" by blast
  obtain result srv' where r: "settleToGrid restingVoxel ?srv = (result, srv')"
    by (cases "settleToGrid restingVoxel ?srv")
  have "case (result, srv') of (result, srv') \<Rightarrow>
     if (\<exists>c. emptyCell (grid ?srv) c \<and> cheb (settleTarget restingVoxel) c \<le> 4)
     then result = Settled
        \<and> (\<exists>c. emptyCell (grid ?srv) c
             \<and> cellAt (grid srv') c = 1
             \<and> (\<forall>c'. c' \<noteq> c \<longrightarrow> cellAt (grid srv') c' = cellAt (grid ?srv) c')
             \<and> (\<forall>c'. emptyCell (grid ?srv) c' \<longrightarrow>
                    cheb (settleTarget restingVoxel) c \<le> cheb (settleTarget restingVoxel) c'
                  \<and> (cheb (settleTarget restingVoxel) c' = cheb (settleTarget restingVoxel) c
                       \<longrightarrow> eucl (settleTarget restingVoxel) c \<le> eucl (settleTarget restingVoxel) c')))
        \<and> movingVoxels (removeFinished result 0 srv') = splice1 0 (movingVoxels ?srv)
     else result = Continue \<and> srv' = ?srv \<and> removeFinished result 0 srv' = ?srv"
    using settle_places_one_cell_or_nothing[where this = restingVoxel and srv = ?srv and i = 0]
    by (simp only: r)
  then have "result = Settled \<and> movingVoxels (removeFinished result 0 srv') = splice1 0 (movingVoxels ?srv)"
    by (simp only: prod.case if_P[OF ex]) blast
  then show ?thesis by (auto simp: r m splice1_def)
qed

subsection \<open>Terrain destruction\<close>

lemma random_fields:
  "grid (snd (random srv)) = grid srv"
  "movingVoxels (snd (random srv)) = movingVoxels srv"
  "players (snd (random srv)) = players srv"
  "randoms (snd (random srv)) = randoms srv"
  "useChunkedMesh (snd (random srv)) = useChunkedMesh srv"
  "fst (random srv) = randoms srv (drawn srv)"
  by (simp_all add: random_def)

text \<open>What one step of the destruction loop does.\<close>

lemma destroyStep_cases:
  assumes srv'_def: "srv' = destroyStep this (fst c) (fst (snd c)) (snd (snd c)) speed d srv"
  shows "(movingVoxels srv' = movingVoxels srv \<and> grid srv' = grid srv)
       \<or> (offsetDist d \<le> 3 \<and> 0.5 < offsetDist d \<and> cellAt (grid srv) (offsetCell c d) \<noteq> 0
          \<and> randoms srv (drawn srv) < max 0 (1 - offsetDist d / 3) * 0.7
          \<and> (\<exists>v. movingVoxels srv' = movingVoxels srv @ [v] \<and> isDebris v
                 \<and> pos v = cellCentre (offsetCell c d))
          \<and> grid srv' = snd (VoxelWorld_setWorld (grid srv) (fst (offsetCell c d))
                 (fst (snd (offsetCell c d))) (snd (snd (offsetCell c d))) 0))"
    and "players srv' = players srv" and "randoms srv' = randoms srv"
proof -
  obtain xi yi zi where c: "c = (xi, yi, zi)" by (cases c)
  obtain dx dy dz where d: "d = (dx, dy, dz)" by (cases d)
  show "players srv' = players srv" "randoms srv' = randoms srv"
    unfolding srv'_def
    by (simp_all add: destroyStep_def c d Let_def random_def Server_setWorld_def split: prod.splits)
  show "(movingVoxels srv' = movingVoxels srv \<and> grid srv' = grid srv)
       \<or> (offsetDist d \<le> 3 \<and> 0.5 < offsetDist d \<and> cellAt (grid srv) (offsetCell c d) \<noteq> 0
          \<and> randoms srv (drawn srv) < max 0 (1 - offsetDist d / 3) * 0.7
          \<and> (\<exists>v. movingVoxels srv' = movingVoxels srv @ [v] \<and> isDebris v
                 \<and> pos v = cellCentre (offsetCell c d))
          \<and> grid srv' = snd (VoxelWorld_setWorld (grid srv) (fst (offsetCell c d))
                 (fst (snd (offsetCell c d))) (snd (snd (offsetCell c d))) 0))"
    unfolding srv'_def
    by (simp add: destroyStep_def c d Let_def random_def Server_setWorld_def offsetDist_def
        offsetCell_def cellAt_def Server_getWorld_def isDebris_def newMovingVoxel_def cellCentre_def
        split: prod.splits)
qed

lemma solid_inGrid: "cellAt w e \<noteq> 0 \<Longrightarrow> inGrid e"
  by (cases e) (auto simp: cellAt_def inGrid_def getWorld_def WORLD_SIZE_def split: if_splits)

lemma cellAt_cleared:
  assumes "cellAt w e0 \<noteq> 0"
  shows "cellAt (snd (VoxelWorld_setWorld w (fst e0) (fst (snd e0)) (snd (snd e0)) 0)) e =
           (if e = e0 then 0 else cellAt w e)"
  using cellAt_setWorld[OF solid_inGrid[OF assms], of w 0 e] by simp

lemma length_filter_mono:
  "(\<And>x. x \<in> set xs \<Longrightarrow> P x \<Longrightarrow> Q x) \<Longrightarrow> length (filter P xs) \<le> length (filter Q xs)"
  by (induction xs) auto

lemma destroy_fold:
  "\<exists>new. destroyed c ds srv
      (fold (destroyStep this (fst c) (fst (snd c)) (snd (snd c)) speed) ds srv) new"
proof (induction ds arbitrary: srv)
  case Nil
  have "destroyed c [] srv srv []" by (simp add: destroyed_def)
  then show ?case by auto
next
  case (Cons d ds)
  let ?step = "destroyStep this (fst c) (fst (snd c)) (snd (snd c)) speed"
  let ?srv1 = "?step d srv"
  let ?srv' = "fold ?step ds ?srv1"
  from Cons.IH[of ?srv1] obtain new1 where ih: "destroyed c ds ?srv1 ?srv' new1" by blast
  have ih1: "movingVoxels ?srv' = movingVoxels ?srv1 @ new1" "list_all isDebris new1"
    "length new1 \<le> length (filter (solidInBall (grid ?srv1) c) ds)"
    using ih unfolding destroyed_def by blast+
  have ih2: "\<And>v. v \<in> set new1 \<Longrightarrow> \<exists>d \<in> set ds. farOffset d \<and> pos v = cellCentre (offsetCell c d)
             \<and> cellAt (grid ?srv1) (offsetCell c d) \<noteq> 0 \<and> cellAt (grid ?srv') (offsetCell c d) = 0"
    using ih unfolding destroyed_def by blast
  have ih3: "\<And>e. cellAt (grid ?srv') e \<noteq> cellAt (grid ?srv1) e \<Longrightarrow>
             cellAt (grid ?srv') e = 0 \<and> (\<exists>d \<in> set ds. farOffset d \<and> e = offsetCell c d)"
    using ih unfolding destroyed_def by blast
  from destroyStep_cases(1)[OF refl, of this c speed d srv]
  have "(movingVoxels ?srv1 = movingVoxels srv \<and> grid ?srv1 = grid srv)
       \<or> (offsetDist d \<le> 3 \<and> farOffset d \<and> cellAt (grid srv) (offsetCell c d) \<noteq> 0
          \<and> (\<exists>v. movingVoxels ?srv1 = movingVoxels srv @ [v] \<and> isDebris v
                 \<and> pos v = cellCentre (offsetCell c d))
          \<and> grid ?srv1 = snd (VoxelWorld_setWorld (grid srv) (fst (offsetCell c d))
                 (fst (snd (offsetCell c d))) (snd (snd (offsetCell c d))) 0))"
    unfolding farOffset_def by blast
  then consider (A) "movingVoxels ?srv1 = movingVoxels srv" "grid ?srv1 = grid srv"
    | (B) v where "offsetDist d \<le> 3" "farOffset d" "cellAt (grid srv) (offsetCell c d) \<noteq> 0"
        "movingVoxels ?srv1 = movingVoxels srv @ [v]" "isDebris v" "pos v = cellCentre (offsetCell c d)"
        "grid ?srv1 = snd (VoxelWorld_setWorld (grid srv) (fst (offsetCell c d))
                 (fst (snd (offsetCell c d))) (snd (snd (offsetCell c d))) 0)"
    by blast
  then show ?case
  proof cases
    case A
    have "length new1 \<le> length (filter (solidInBall (grid srv) c) (d # ds))"
      using ih1(3) by (simp add: A(2))
    moreover have "\<forall>v \<in> set new1. \<exists>d' \<in> set (d # ds). farOffset d' \<and> pos v = cellCentre (offsetCell c d')
             \<and> cellAt (grid srv) (offsetCell c d') \<noteq> 0 \<and> cellAt (grid ?srv') (offsetCell c d') = 0"
      using ih2 by (simp add: A(2))
    moreover have "\<forall>e. cellAt (grid ?srv') e \<noteq> cellAt (grid srv) e \<longrightarrow>
             cellAt (grid ?srv') e = 0 \<and> (\<exists>d' \<in> set (d # ds). farOffset d' \<and> e = offsetCell c d')"
      using ih3 by (simp add: A(2))
    ultimately have "destroyed c (d # ds) srv ?srv' new1"
      using ih1(1,2) by (simp add: destroyed_def A(1))
    then show ?thesis by auto
  next
    case B
    let ?e0 = "offsetCell c d"
    have cl: "\<And>e. cellAt (grid ?srv1) e = (if e = ?e0 then 0 else cellAt (grid srv) e)"
      unfolding B(7) by (rule cellAt_cleared[OF B(3)])
    have mono: "\<And>e. cellAt (grid ?srv1) e \<noteq> 0 \<Longrightarrow> cellAt (grid srv) e \<noteq> 0"
      by (simp add: cl split: if_splits)
    have e0: "cellAt (grid ?srv') ?e0 = 0"
      using ih3[of ?e0] cl[of ?e0] by auto
    have "length (filter (solidInBall (grid ?srv1) c) ds) \<le> length (filter (solidInBall (grid srv) c) ds)"
      by (rule length_filter_mono) (simp add: solidInBall_def mono)
    moreover have "solidInBall (grid srv) c d" using B(1,3) by (simp add: solidInBall_def)
    ultimately have 1: "length (v # new1) \<le> length (filter (solidInBall (grid srv) c) (d # ds))"
      using ih1(3) by simp
    have 2: "\<forall>u \<in> set (v # new1). \<exists>d' \<in> set (d # ds). farOffset d' \<and> pos u = cellCentre (offsetCell c d')
             \<and> cellAt (grid srv) (offsetCell c d') \<noteq> 0 \<and> cellAt (grid ?srv') (offsetCell c d') = 0"
    proof
      fix u assume "u \<in> set (v # new1)"
      then consider "u = v" | "u \<in> set new1" by auto
      then show "\<exists>d' \<in> set (d # ds). farOffset d' \<and> pos u = cellCentre (offsetCell c d')
             \<and> cellAt (grid srv) (offsetCell c d') \<noteq> 0 \<and> cellAt (grid ?srv') (offsetCell c d') = 0"
      proof cases
        case 1
        then show ?thesis using B(2,3,6) e0 by (intro bexI[of _ d]) simp_all
      next
        case 2
        from ih2[OF 2] obtain d' where dd: "d' \<in> set ds" "farOffset d'" "pos u = cellCentre (offsetCell c d')"
            "cellAt (grid ?srv1) (offsetCell c d') \<noteq> 0" "cellAt (grid ?srv') (offsetCell c d') = 0"
          by blast
        have "cellAt (grid srv) (offsetCell c d') \<noteq> 0" by (rule mono[OF dd(4)])
        with dd(1,2,3,5) show ?thesis by (intro bexI[of _ d']) simp_all
      qed
    qed
    have 3: "\<forall>e. cellAt (grid ?srv') e \<noteq> cellAt (grid srv) e \<longrightarrow>
             cellAt (grid ?srv') e = 0 \<and> (\<exists>d' \<in> set (d # ds). farOffset d' \<and> e = offsetCell c d')"
    proof (intro allI impI)
      fix e assume ne: "cellAt (grid ?srv') e \<noteq> cellAt (grid srv) e"
      show "cellAt (grid ?srv') e = 0 \<and> (\<exists>d' \<in> set (d # ds). farOffset d' \<and> e = offsetCell c d')"
      proof (cases "cellAt (grid ?srv') e = cellAt (grid ?srv1) e")
        case True
        then have "e = ?e0" using ne cl[of e] by (simp split: if_splits)
        then show ?thesis using e0 B(2) by (intro conjI bexI[of _ d]) simp_all
      next
        case False
        from ih3[OF False] obtain d' where "cellAt (grid ?srv') e = 0" "d' \<in> set ds" "farOffset d'" "e = offsetCell c d'"
          by blast
        then show ?thesis by (intro conjI bexI[of _ d']) simp_all
      qed
    qed
    have "destroyed c (d # ds) srv ?srv' (v # new1)"
      using ih1(1,2) 1 2 3 B(4,5) unfolding destroyed_def by simp
    then show ?thesis by auto
  qed
qed

lemma destroy_fold_players:
  "players (fold (destroyStep this (fst c) (fst (snd c)) (snd (snd c)) speed) ds srv) = players srv"
  by (induction ds arbitrary: srv) (simp_all add: destroyStep_cases(2)[OF refl])

lemma offsetCell_self: "offsetCell c d = c \<Longrightarrow> \<not> farOffset d"
  by (cases c; cases d) (simp add: offsetCell_def farOffset_def offsetDist_def)

lemma sphereSolidCount_filter:
  "sphereSolidCount w c = length (filter (solidInBall w c) (cubeOffsets 3))"
proof -
  have "solidInBall w c = (\<lambda>d. offsetDist d \<le> 3 \<and> cellAt w (offsetCell c d) \<noteq> 0)"
    by (rule ext) (simp add: solidInBall_def)
  then show ?thesis by (simp only: sphereSolidCount_def)
qed

text \<open>
  What a call of \<^verbatim>\<open>createDestruction\<close> does, for any projectile, speed and terrain. It
  sets the latch and appends to the moving list between 0 and N bodies, where N is the
  number of solid cells of the radius-3 sphere around the impact cell. Every appended body
  is a debris body (neither projectile nor player cell) at the centre of a cell that was
  solid and is empty afterwards. A cell that changes becomes empty. The impacted cell
  itself is never dislodged: it keeps its value. The players are untouched.
\<close>

lemma createDestruction_effect:
  "(case createDestruction this xi yi zi speed srv of (this', srv') \<Rightarrow>
      hasCollided this'
    \<and> (\<exists>new. movingVoxels srv' = movingVoxels srv @ new
          \<and> length new \<le> sphereSolidCount (grid srv) (xi, yi, zi)
          \<and> (\<forall>v \<in> set new. isDebris v
                \<and> (\<exists>e. pos v = cellCentre e \<and> cellAt (grid srv) e \<noteq> 0 \<and> cellAt (grid srv') e = 0)))
    \<and> cellAt (grid srv') (xi, yi, zi) = cellAt (grid srv) (xi, yi, zi)
    \<and> (\<forall>e. cellAt (grid srv') e \<noteq> cellAt (grid srv) e \<longrightarrow> cellAt (grid srv') e = 0)
    \<and> players srv' = players srv)"
proof -
  let ?c = "(xi, yi, zi)"
  let ?this1 = "this\<lparr>hasCollided := True\<rparr>"
  let ?srv' = "fold (destroyStep ?this1 xi yi zi speed) (cubeOffsets 3) srv"
  have cd: "createDestruction this xi yi zi speed srv = (?this1, ?srv')"
    by (simp add: createDestruction_def Let_def)
  from destroy_fold[of ?c "cubeOffsets 3" srv ?this1 speed]
  obtain new where d: "destroyed ?c (cubeOffsets 3) srv ?srv' new" by auto
  have d1: "movingVoxels ?srv' = movingVoxels srv @ new" "list_all isDebris new"
    "length new \<le> length (filter (solidInBall (grid srv) ?c) (cubeOffsets 3))"
    using d unfolding destroyed_def by blast+
  have d2: "\<And>v. v \<in> set new \<Longrightarrow> \<exists>d \<in> set (cubeOffsets 3). farOffset d \<and> pos v = cellCentre (offsetCell ?c d)
             \<and> cellAt (grid srv) (offsetCell ?c d) \<noteq> 0 \<and> cellAt (grid ?srv') (offsetCell ?c d) = 0"
    using d unfolding destroyed_def by blast
  have d3: "\<And>e. cellAt (grid ?srv') e \<noteq> cellAt (grid srv) e \<Longrightarrow>
             cellAt (grid ?srv') e = 0 \<and> (\<exists>d \<in> set (cubeOffsets 3). farOffset d \<and> e = offsetCell ?c d)"
    using d unfolding destroyed_def by blast
  have a: "\<forall>v \<in> set new. isDebris v
                \<and> (\<exists>e. pos v = cellCentre e \<and> cellAt (grid srv) e \<noteq> 0 \<and> cellAt (grid ?srv') e = 0)"
  proof
    fix v assume v: "v \<in> set new"
    from d2[OF v] obtain dd where "pos v = cellCentre (offsetCell ?c dd)"
      "cellAt (grid srv) (offsetCell ?c dd) \<noteq> 0" "cellAt (grid ?srv') (offsetCell ?c dd) = 0" by blast
    moreover have "isDebris v" using d1(2) v by (simp add: list_all_iff)
    ultimately show "isDebris v
                \<and> (\<exists>e. pos v = cellCentre e \<and> cellAt (grid srv) e \<noteq> 0 \<and> cellAt (grid ?srv') e = 0)"
      by blast
  qed
  have b: "cellAt (grid ?srv') ?c = cellAt (grid srv) ?c"
  proof (rule ccontr)
    assume "cellAt (grid ?srv') ?c \<noteq> cellAt (grid srv) ?c"
    from d3[OF this] obtain dd where "farOffset dd" "?c = offsetCell ?c dd" by blast
    then show False using offsetCell_self[of ?c dd] by simp
  qed
  have e: "\<forall>e. cellAt (grid ?srv') e \<noteq> cellAt (grid srv) e \<longrightarrow> cellAt (grid ?srv') e = 0"
    using d3 by blast
  have p: "players ?srv' = players srv"
    using destroy_fold_players[of ?this1 ?c speed "cubeOffsets 3" srv] by simp
  have n: "\<exists>new. movingVoxels ?srv' = movingVoxels srv @ new
          \<and> length new \<le> sphereSolidCount (grid srv) ?c
          \<and> (\<forall>v \<in> set new. isDebris v
                \<and> (\<exists>e. pos v = cellCentre e \<and> cellAt (grid srv) e \<noteq> 0 \<and> cellAt (grid ?srv') e = 0))"
    using d1(1,3) a unfolding sphereSolidCount_filter by blast
  show ?thesis
    unfolding cd using n b e p by simp
qed

text \<open>When every random draw is at least 0.7 no cell is dislodged.\<close>

lemma destroy_fold_no_luck:
  assumes "\<forall>n. 0.7 \<le> randoms srv n"
  shows "movingVoxels (fold (destroyStep this (fst c) (fst (snd c)) (snd (snd c)) speed) ds srv) = movingVoxels srv
       \<and> grid (fold (destroyStep this (fst c) (fst (snd c)) (snd (snd c)) speed) ds srv) = grid srv"
  using assms
proof (induction ds arbitrary: srv)
  case Nil
  then show ?case by simp
next
  case (Cons d ds)
  let ?step = "destroyStep this (fst c) (fst (snd c)) (snd (snd c)) speed"
  have r: "randoms (?step d srv) = randoms srv"
    by (rule destroyStep_cases(3)[OF refl])
  have "\<not> randoms srv (drawn srv) < max 0 (1 - offsetDist d / 3) * 0.7"
  proof -
    have "0 \<le> offsetDist d" by (cases d) (simp add: offsetDist_def)
    then have "max 0 (1 - offsetDist d / 3) \<le> 1" by simp
    then have "max 0 (1 - offsetDist d / 3) * 0.7 \<le> 0.7" by simp
    moreover have "0.7 \<le> randoms srv (drawn srv)" using Cons.prems by blast
    ultimately show ?thesis by linarith
  qed
  with destroyStep_cases(1)[OF refl, of this c speed d srv]
  have a: "movingVoxels (?step d srv) = movingVoxels srv" "grid (?step d srv) = grid srv"
    by blast+
  have "\<forall>n. 0.7 \<le> randoms (?step d srv) n" using Cons.prems r by simp
  from Cons.IH[OF this] show ?case by (simp add: a)
qed

lemma destroyStep_hit:
  assumes "offsetDist d < 3" "farOffset d" "cellAt (grid srv) (offsetCell c d) \<noteq> 0"
    and "randoms srv (drawn srv) < (1 - offsetDist d / 3) * 0.7"
  shows "length (movingVoxels (destroyStep this (fst c) (fst (snd c)) (snd (snd c)) speed d srv))
         = Suc (length (movingVoxels srv))"
proof -
  obtain xi yi zi where c: "c = (xi, yi, zi)" by (cases c)
  obtain dx dy dz where d: "d = (dx, dy, dz)" by (cases d)
  let ?dist = "sqrt (real_of_int (dx * dx + dy * dy + dz * dz))"
  have dist: "?dist < 3" "0.5 < ?dist" using assms(1,2) by (simp_all add: d offsetDist_def farOffset_def)
  have solid: "getWorld (grid srv) (xi + dx) (yi + dy) (zi + dz) \<noteq> 0"
    using assms(3) by (simp add: c d offsetCell_def cellAt_def)
  have m: "max 0 (1 - ?dist / 3) = 1 - ?dist / 3" using dist(1) by simp
  have r: "randoms srv (drawn srv) < (1 - ?dist / 3) * 0.7"
    using assms(4) by (simp add: d offsetDist_def)
  have dl: "sqrt ((real_of_int dx)\<^sup>2 + (real_of_int dy)\<^sup>2 + (real_of_int dz)\<^sup>2) = ?dist"
    by (simp add: power2_eq_square)
  have pos: "0 < ?dist" using dist(2) by linarith
  show ?thesis
    using dist solid r pos
    by (simp add: destroyStep_def c d Let_def random_def Server_getWorld_def m dl
        Server_setWorld_fields power2_eq_square split: prod.splits)
qed

lemma destroy_fold_length:
  "length (movingVoxels srv)
     \<le> length (movingVoxels (fold (destroyStep this (fst c) (fst (snd c)) (snd (snd c)) speed) ds srv))"
proof -
  from destroy_fold[of c ds srv this speed] obtain new where
    "destroyed c ds srv (fold (destroyStep this (fst c) (fst (snd c)) (snd (snd c)) speed) ds srv) new"
    by blast
  then show ?thesis unfolding destroyed_def by simp
qed

text \<open>When every random draw is 0, a solid cell strictly inside the sphere (other than the
  impact cell) makes the destruction spawn at least one body.\<close>

lemma destroy_fold_spawns:
  assumes "\<forall>n. randoms srv n = 0" "d \<in> set ds"
    and "offsetDist d < 3" "farOffset d" "cellAt (grid srv) (offsetCell c d) \<noteq> 0"
  shows "length (movingVoxels srv)
     < length (movingVoxels (fold (destroyStep this (fst c) (fst (snd c)) (snd (snd c)) speed) ds srv))"
  using assms(1,2,5)
proof (induction ds arbitrary: srv)
  case Nil
  then show ?case by simp
next
  case (Cons d0 ds)
  let ?step = "destroyStep this (fst c) (fst (snd c)) (snd (snd c)) speed"
  let ?srv1 = "?step d0 srv"
  have r1: "\<forall>n. randoms ?srv1 n = 0"
    using Cons.prems(1) destroyStep_cases(3)[OF refl, of this c speed d0 srv] by simp
  have ge: "length (movingVoxels ?srv1) \<le> length (movingVoxels (fold ?step ds ?srv1))"
    by (rule destroy_fold_length)
  show ?case
  proof (cases "length (movingVoxels ?srv1) = length (movingVoxels srv)")
    case False
    from destroyStep_cases(1)[OF refl, of this c speed d0 srv]
    have "length (movingVoxels ?srv1) = length (movingVoxels srv)
          \<or> length (movingVoxels ?srv1) = Suc (length (movingVoxels srv))"
      by auto
    with False have "length (movingVoxels ?srv1) = Suc (length (movingVoxels srv))" by simp
    with ge show ?thesis by simp
  next
    case True
    from destroyStep_cases(1)[OF refl, of this c speed d0 srv] True
    have g: "grid ?srv1 = grid srv" by auto
    have "d \<noteq> d0"
    proof
      assume e: "d = d0"
      have "randoms srv (drawn srv) < (1 - offsetDist d / 3) * 0.7"
        using Cons.prems(1) assms(3) by simp
      from destroyStep_hit[OF assms(3,4) Cons.prems(3) this, of this speed] True e
      show False by simp
    qed
    then have "d \<in> set ds" using Cons.prems(2) by simp
    from Cons.IH[OF r1 this] Cons.prems(3) g True show ?thesis by simp
  qed
qed

lemma cellAt_slabWorld:
  "cellAt slabWorld (a, b, c) = (if 3 \<le> a \<and> a < 8 \<and> b = 4 \<and> 3 \<le> c \<and> c < 8 then 1 else 0)"
proof -
  let ?cs = "concat (map (\<lambda>x. map (\<lambda>z. (x, 4, z)) (loopRange 3 8)) (loopRange 3 8))"
  have m: "\<And>e. e \<in> set ?cs \<longleftrightarrow> (\<exists>x z. e = (x, 4, z) \<and> 3 \<le> x \<and> x < 8 \<and> 3 \<le> z \<and> z < 8)"
    by (auto simp: set_loopRange)
  have "list_all inGrid ?cs"
    by (auto simp: list_all_iff inGrid_def set_loopRange)
  from getWorld_worldOf[OF this, of a b c] show ?thesis
    unfolding cellAt_def slabWorld_def m by auto
qed

lemma projectile30_fields:
  "vel projectile30 = (24, -18, 0)" "isProjectile projectile30" "\<not> hasCollided projectile30"
  by (simp_all add: projectile30_def newMovingVoxel_def)

lemma projectile30_speed: "speedOf projectile30 = 30"
proof -
  have "sqrt ((24::real)\<^sup>2 + (-18)\<^sup>2 + 0\<^sup>2) = sqrt (30\<^sup>2)" by simp
  then show ?thesis unfolding speedOf_def projectile30_fields by simp
qed

text \<open>The bounce of the projectile on the slab leaves it at speed \<open>sqrt 420.48 > 15\<close>, so
  the destruction is triggered.\<close>

lemma slab_impact_triggers:
  "handleCollision projectile30 slabCollision srv =
     createDestruction (projectile30\<lparr>vel := (19.2, 7.2, 0)\<rparr>) 5 4 5
       (speedOf (projectile30\<lparr>vel := (19.2, 7.2, 0)\<rparr>)) srv"
proof -
  have v: "fold (\<lambda>i u. if i \<noteq> 1 \<and> i \<noteq> 1 then vset u i (vget u i * 0.8) else u) [0, 1, 2]
             (vset (24, -18, 0) 1 (vget (24, -18, 0) 1 * - 0.4)) = (19.2, 7.2, 0)"
    by (simp add: vset_def vget_def)
  have "(15::real)\<^sup>2 < 19.2\<^sup>2 + 7.2\<^sup>2 + 0\<^sup>2" by (simp add: power2_eq_square)
  then have "15 < sqrt ((19.2::real)\<^sup>2 + 7.2\<^sup>2 + 0\<^sup>2)" by (rule real_less_rsqrt)
  then have s: "15 < speedOf (projectile30\<lparr>vel := (19.2, 7.2, 0)\<rparr>)"
    by (simp add: speedOf_def)
  have a: "\<bar>vget (24, -18, 0) 1\<bar> > 2" by (simp add: vget_def)
  show ?thesis
    unfolding handleCollision_def slabCollision_def Let_def projectile30_fields
    using s a v projectile30_fields by (simp del: fold_simps)
qed

text \<open>
  Claim C6 as stated fails. A projectile reaches the flat slab at speed 30 with velocity
  \<open>(24, -18, 0)\<close>; the bounce on the cell \<open>(5, 4, 5)\<close> leaves it faster than 15, so the
  destruction is triggered (the latch is set). With every random draw equal to 0.9 no
  debris is spawned, and with any draws the impacted cell is still solid afterwards.
\<close>

theorem destruction_spares_impact_cell:
  "speedOf projectile30 = 30
   \<and> cellAt (grid slabServer) (5, 4, 5) = 1
   \<and> hasCollided (fst (handleCollision projectile30 slabCollision slabServer))
   \<and> movingVoxels (snd (handleCollision projectile30 slabCollision slabServer)) = [projectile30]
   \<and> cellAt (grid (snd (handleCollision projectile30 slabCollision slabServer))) (5, 4, 5) = 1"
proof -
  let ?p = "projectile30\<lparr>vel := (19.2, 7.2, 0)\<rparr>"
  let ?speed = "speedOf ?p"
  let ?this1 = "?p\<lparr>hasCollided := True\<rparr>"
  have r: "\<forall>n. 0.7 \<le> randoms slabServer n" by (simp add: slabServer_def serverWith_def)
  have cd: "createDestruction ?p 5 4 5 ?speed slabServer
        = (?this1, fold (destroyStep ?this1 5 4 5 ?speed) (cubeOffsets 3) slabServer)"
    by (simp add: createDestruction_def Let_def)
  from destroy_fold_no_luck[OF r, of ?this1 "(5, 4, 5)" ?speed "cubeOffsets 3"]
  have f: "movingVoxels (fold (destroyStep ?this1 5 4 5 ?speed) (cubeOffsets 3) slabServer) = movingVoxels slabServer"
    "grid (fold (destroyStep ?this1 5 4 5 ?speed) (cubeOffsets 3) slabServer) = grid slabServer"
    by simp_all
  have g: "grid slabServer = slabWorld" "movingVoxels slabServer = [projectile30]"
    by (simp_all add: slabServer_def serverWith_def)
  have c: "cellAt slabWorld (5, 4, 5) = 1" by (simp add: cellAt_slabWorld)
  show ?thesis
    unfolding slab_impact_triggers cd
    using projectile30_speed f g c by simp
qed

text \<open>
  The velocity of a dislodged body. After a bounce on a horizontal face the projectile
  moves upwards or not at all vertically, and its horizontal speed is at most 24 (or its
  vertical velocity was stopped): no offset of the sphere gives a body whose three velocity
  components vanish together.
\<close>

lemma debrisVelocity_nonzero:
  fixes u0 u1 u2 speed :: real and dx dy dz :: int
  assumes sp: "speed = sqrt (u0\<^sup>2 + u1\<^sup>2 + u2\<^sup>2)" "15 < speed" "speed \<le> 30"
    and up: "0 \<le> u1"
    and kind: "(u0\<^sup>2 + u2\<^sup>2 \<le> 576 \<and> u1 \<le> 12) \<or> (u1 = 0 \<and> 896 \<le> u0\<^sup>2 + u2\<^sup>2)"
    and far: "farOffset (dx, dy, dz)" and near: "offsetDist (dx, dy, dz) \<le> 3"
  shows "debrisVelocity (u0, u1, u2) speed (dx, dy, dz) \<noteq> (0, 0, 0)"
proof
  assume z: "debrisVelocity (u0, u1, u2) speed (dx, dy, dz) = (0, 0, 0)"
  define n where "n = dx * dx + dy * dy + dz * dz"
  define r where "r = sqrt (real_of_int n)"
  define T where "T = speed * max 0 (1 - r / 3) * 0.8"
  have r_off: "offsetDist (dx, dy, dz) = r" by (simp add: offsetDist_def r_def n_def)
  have r3: "r \<le> 3" using near r_off by simp
  have r05: "0.5 < r" using far r_off by (simp add: farOffset_def)
  then have rpos: "0 < r" by linarith
  have n0: "0 \<le> n" by (simp add: n_def)
  have rr: "r * r = real_of_int n" using n0 by (simp add: r_def)
  have "0 < real_of_int n" using rpos rr mult_pos_pos[OF rpos rpos] by simp
  then have n1: "1 \<le> n" by simp
  have T_eq: "T = speed * (1 - r / 3) * 0.8" using r3 by (simp add: T_def)
  have T0: "0 \<le> T" using sp(2) r3 by (simp add: T_eq)
  have "speed * (1 - r / 3) \<le> 30 * (1 - r / 3)"
    using sp(3) r3 by (intro mult_right_mono) simp_all
  then have "speed * (1 - r / 3) * 0.8 \<le> 30 * (1 - r / 3) * 0.8" by (rule mult_right_mono) simp
  also have "\<dots> = 24 - 8 * r" by (simp add: algebra_simps)
  finally have T_le: "T \<le> 24 - 8 * r" unfolding T_eq .
  from z have e0: "real_of_int dx / r * T + u0 * 0.3 = 0"
    and e1: "real_of_int dy / r * T + u1 * 0.3 + 8 = 0"
    and e2: "real_of_int dz / r * T + u2 * 0.3 = 0"
    by (simp_all add: debrisVelocity_def r_off Let_def vget_def T_def)
  have m0: "real_of_int dx * T = - (0.3 * u0) * r" using e0 rpos by (simp add: field_simps)
  have m1: "real_of_int dy * T = - (0.3 * u1 + 8) * r" using e1 rpos by (simp add: field_simps)
  have m2: "real_of_int dz * T = - (0.3 * u2) * r" using e2 rpos by (simp add: field_simps)
  have neg: "real_of_int dy * T < 0"
  proof -
    have "0 < (0.3 * u1 + 8) * r" using up rpos by (intro mult_pos_pos) simp_all
    then show ?thesis unfolding m1 by (simp only: mult_minus_left neg_less_0_iff_less)
  qed
  have dyneg: "dy < 0"
  proof (rule ccontr)
    assume "\<not> dy < 0"
    then have "0 \<le> real_of_int dy" by simp
    then have "0 \<le> real_of_int dy * T" using T0 by (rule mult_nonneg_nonneg)
    then show False using neg by simp
  qed
  define a where "a = real_of_int (- dy)"
  have a1: "1 \<le> a" using dyneg by (simp add: a_def)
  have "a * T = - (real_of_int dy * T)" by (simp add: a_def)
  also have "\<dots> = (0.3 * u1 + 8) * r" unfolding m1 by (simp only: mult_minus_left minus_minus)
  finally have aT: "a * T = (0.3 * u1 + 8) * r" .
  have "8 * r \<le> (0.3 * u1 + 8) * r" using up rpos by (intro mult_right_mono) simp_all
  then have aT8: "8 * r \<le> a * T" using aT by simp
  have "a * T \<le> a * (24 - 8 * r)" using T_le a1 by (intro mult_left_mono) simp_all
  then have star8: "8 * r \<le> a * (24 - 8 * r)" using aT8 by linarith
  then have star: "r \<le> a * (3 - r)" by (simp add: algebra_simps)
  have "real_of_int (dy * dy) \<le> real_of_int n"
    unfolding n_def by (simp only: of_int_le_iff) (simp add: add_nonneg_nonneg)
  then have "a\<^sup>2 \<le> real_of_int n" by (simp add: a_def power2_eq_square)
  then have a_le_r: "a \<le> r" unfolding r_def by (rule real_le_rsqrt)
  have "a * (3 - r) \<le> r * (3 - r)" using a_le_r r3 by (intro mult_right_mono) simp_all
  then have "r * 1 \<le> r * (3 - r)" using star by simp
  then have "1 \<le> 3 - r" using rpos by (simp only: mult_le_cancel_left_pos)
  then have r2: "r \<le> 2" by simp
  have "r * r \<le> 2 * 2" using r2 rpos by (intro mult_mono) simp_all
  then have n4: "n \<le> 4" using rr by simp
  show False
  proof (cases "dx = 0 \<and> dz = 0")
    case True
    then have "u0 = 0" "u2 = 0" using m0 m2 rpos by simp_all
    then have s1: "speed = u1" using sp(1) up by simp
    from kind show False
    proof
      assume "u0\<^sup>2 + u2\<^sup>2 \<le> 576 \<and> u1 \<le> 12"
      then show False using s1 sp(2) by simp
    next
      assume "u1 = 0 \<and> 896 \<le> u0\<^sup>2 + u2\<^sup>2"
      then show False using \<open>u0 = 0\<close> \<open>u2 = 0\<close> by simp
    qed
  next
    case False
    have sq0: "\<And>k::int. k \<noteq> 0 \<Longrightarrow> 0 < k * k" by (auto simp: zero_less_mult_iff)
    have sq1: "\<And>k::int. 0 \<le> k * k" by simp
    from False consider "dx \<noteq> 0" | "dz \<noteq> 0" by blast
    then have "0 < dx * dx + dz * dz"
    proof cases
      case 1
      from add_pos_nonneg[OF sq0[OF 1] sq1[of dz]] show ?thesis .
    next
      case 2
      from add_nonneg_pos[OF sq1[of dx] sq0[OF 2]] show ?thesis .
    qed
    then have h1: "1 \<le> dx * dx + dz * dz" by simp
    have dy1: "dy = - 1"
    proof (rule ccontr)
      assume "dy \<noteq> - 1"
      then have "2 \<le> - dy" using dyneg by simp
      then have "2 * 2 \<le> (- dy) * (- dy)" by (intro mult_mono) simp_all
      then have "4 \<le> dy * dy" by simp
      then show False using n4 h1 by (simp add: n_def)
    qed
    then have a_one: "a = 1" by (simp add: a_def)
    have "r \<le> 3 - r" using star a_one by simp
    then have r15: "r \<le> 1.5" by simp
    have "r * r \<le> 1.5 * 1.5" using r15 rpos by (intro mult_mono) simp_all
    then have "real_of_int n \<le> 2.25" using rr by simp
    then have "real_of_int n < real_of_int 3" by simp
    then have "n < 3" by (simp only: of_int_less_iff)
    then have "n \<le> 2" by simp
    then have h: "dx * dx + dz * dz = 1" using h1 dy1 by (simp add: n_def)
    then have n2: "n = 2" using dy1 by (simp add: n_def)
    have rr2: "r * r = 2" using rr n2 by simp
    have TT: "T * T = 2 * (0.3 * u1 + 8)\<^sup>2"
    proof -
      have "T = (0.3 * u1 + 8) * r" using aT a_one by simp
      then have "T * T = (0.3 * u1 + 8)\<^sup>2 * (r * r)" by (simp add: power2_eq_square algebra_simps)
      then show ?thesis using rr2 by simp
    qed
    have "(real_of_int dx * T)\<^sup>2 + (real_of_int dz * T)\<^sup>2 = 0.09 * (u0\<^sup>2 + u2\<^sup>2) * (r * r)"
      unfolding m0 m2 by (simp add: power2_eq_square algebra_simps)
    moreover have "(real_of_int dx * T)\<^sup>2 + (real_of_int dz * T)\<^sup>2 = real_of_int (dx * dx + dz * dz) * (T * T)"
      by (simp add: power2_eq_square algebra_simps)
    ultimately have "T * T = 0.18 * (u0\<^sup>2 + u2\<^sup>2)" using h rr2 by simp
    then have eq: "0.09 * (u0\<^sup>2 + u2\<^sup>2) = (0.3 * u1 + 8)\<^sup>2" using TT by simp
    have "8 * 8 \<le> (0.3 * u1 + 8) * (0.3 * u1 + 8)" using up by (intro mult_mono) simp_all
    then have ge: "64 \<le> 0.09 * (u0\<^sup>2 + u2\<^sup>2)" using eq by (simp add: power2_eq_square)
    from kind show False
    proof
      assume "u0\<^sup>2 + u2\<^sup>2 \<le> 576 \<and> u1 \<le> 12"
      then show False using ge by simp
    next
      assume k: "u1 = 0 \<and> 896 \<le> u0\<^sup>2 + u2\<^sup>2"
      then have "0.09 * (u0\<^sup>2 + u2\<^sup>2) = 64" using eq by simp
      then show False using k by simp
    qed
  qed
qed

lemma destroyStep_vel:
  assumes srv'_def: "srv' = destroyStep this (fst c) (fst (snd c)) (snd (snd c)) speed d srv"
  shows "movingVoxels srv' = movingVoxels srv
       \<or> (offsetDist d \<le> 3 \<and> farOffset d
          \<and> (\<exists>v. movingVoxels srv' = movingVoxels srv @ [v] \<and> vel v = debrisVelocity (vel this) speed d))"
proof -
  obtain xi yi zi where c: "c = (xi, yi, zi)" by (cases c)
  obtain dx dy dz where d: "d = (dx, dy, dz)" by (cases d)
  have dl: "sqrt ((real_of_int dx)\<^sup>2 + (real_of_int dy)\<^sup>2 + (real_of_int dz)\<^sup>2)
            = sqrt (real_of_int (dx * dx + dy * dy + dz * dz))"
    by (simp add: power2_eq_square)
  show ?thesis
    unfolding srv'_def
    by (simp add: destroyStep_def c d Let_def random_def Server_setWorld_def offsetDist_def
        farOffset_def debrisVelocity_def dl power2_eq_square split: prod.splits)
qed

lemma destroy_fold_vel:
  "\<exists>new. movingVoxels (fold (destroyStep this (fst c) (fst (snd c)) (snd (snd c)) speed) ds srv)
            = movingVoxels srv @ new
        \<and> (\<forall>v \<in> set new. \<exists>d. offsetDist d \<le> 3 \<and> farOffset d \<and> vel v = debrisVelocity (vel this) speed d)"
proof (induction ds arbitrary: srv)
  case Nil
  show ?case by simp
next
  case (Cons d ds)
  let ?step = "destroyStep this (fst c) (fst (snd c)) (snd (snd c)) speed"
  let ?srv1 = "?step d srv"
  from Cons.IH[of ?srv1] obtain new1 where
    ih: "movingVoxels (fold ?step ds ?srv1) = movingVoxels ?srv1 @ new1"
        "\<forall>v \<in> set new1. \<exists>d. offsetDist d \<le> 3 \<and> farOffset d \<and> vel v = debrisVelocity (vel this) speed d"
    by blast
  from destroyStep_vel[OF refl, of this c speed d srv]
  consider (A) "movingVoxels ?srv1 = movingVoxels srv"
    | (B) v where "offsetDist d \<le> 3" "farOffset d" "movingVoxels ?srv1 = movingVoxels srv @ [v]"
        "vel v = debrisVelocity (vel this) speed d"
    by blast
  then show ?case
  proof cases
    case A
    then show ?thesis using ih by auto
  next
    case B
    have "movingVoxels (fold ?step (d # ds) srv) = movingVoxels srv @ (v # new1)"
      using ih(1) B(3) by simp
    moreover have "\<forall>u \<in> set (v # new1). \<exists>d. offsetDist d \<le> 3 \<and> farOffset d \<and> vel u = debrisVelocity (vel this) speed d"
    proof
      fix u assume "u \<in> set (v # new1)"
      then consider "u = v" | "u \<in> set new1" by auto
      then show "\<exists>d. offsetDist d \<le> 3 \<and> farOffset d \<and> vel u = debrisVelocity (vel this) speed d"
      proof cases
        case 1
        then show ?thesis using B(1,2,4) by blast
      next
        case 2
        then show ?thesis using ih(2) by blast
      qed
    qed
    ultimately show ?thesis by blast
  qed
qed

lemma speed_squares:
  assumes "speedOf this = 30" "vel this = (v0, v1, v2)"
  shows "v0\<^sup>2 + v1\<^sup>2 + v2\<^sup>2 = 900"
proof -
  have "sqrt (v0\<^sup>2 + v1\<^sup>2 + v2\<^sup>2) = 30" using assms by (simp add: speedOf_def)
  then have "(sqrt (v0\<^sup>2 + v1\<^sup>2 + v2\<^sup>2))\<^sup>2 = 30\<^sup>2" by simp
  then show ?thesis by simp
qed

lemma bounce_top:
  assumes "isProjectile this" "axis collision = 1" "block collision = (xi, yi, zi)"
    and "vel this = (v0, v1, v2)"
  shows "handleCollision this collision srv =
     (if speedOf (this\<lparr>vel := (if \<bar>v1\<bar> > 2 then (v0 * 0.8, v1 * - 0.4, v2 * 0.8) else (v0, 0, v2))\<rparr>) > 15
         \<and> \<not> hasCollided this
      then createDestruction (this\<lparr>vel := (if \<bar>v1\<bar> > 2 then (v0 * 0.8, v1 * - 0.4, v2 * 0.8) else (v0, 0, v2))\<rparr>)
             xi yi zi
             (speedOf (this\<lparr>vel := (if \<bar>v1\<bar> > 2 then (v0 * 0.8, v1 * - 0.4, v2 * 0.8) else (v0, 0, v2))\<rparr>)) srv
      else (this\<lparr>vel := (if \<bar>v1\<bar> > 2 then (v0 * 0.8, v1 * - 0.4, v2 * 0.8) else (v0, 0, v2))\<rparr>, srv))"
  using assms by (simp add: handleCollision_def Let_def vget_def vset_def)

lemma bounce_bounds:
  fixes v0 v1 v2 :: real
  assumes s: "v0\<^sup>2 + v1\<^sup>2 + v2\<^sup>2 = 900" and down: "v1 \<le> 0"
    and u: "(u0, u1, u2) = (if \<bar>v1\<bar> > 2 then (v0 * 0.8, v1 * - 0.4, v2 * 0.8) else (v0, 0, v2))"
  shows "sqrt (u0\<^sup>2 + u1\<^sup>2 + u2\<^sup>2) \<le> 30" "0 \<le> u1"
    "(u0\<^sup>2 + u2\<^sup>2 \<le> 576 \<and> u1 \<le> 12) \<or> (u1 = 0 \<and> 896 \<le> u0\<^sup>2 + u2\<^sup>2)"
proof -
  have v1sq: "v1\<^sup>2 \<le> 900" using s sum_power2_ge_zero[of v0 v2] by linarith
  have "\<bar>v1\<bar> \<le> 30" using v1sq abs_le_square_iff[of v1 30] by simp
  then have v1lo: "- 30 \<le> v1" by simp
  have h: "v0\<^sup>2 + v2\<^sup>2 \<le> 900" using s zero_le_power2[of v1] by linarith
  show "0 \<le> u1" using u down by (auto split: if_splits)
  show "(u0\<^sup>2 + u2\<^sup>2 \<le> 576 \<and> u1 \<le> 12) \<or> (u1 = 0 \<and> 896 \<le> u0\<^sup>2 + u2\<^sup>2)"
  proof (cases "\<bar>v1\<bar> > 2")
    case True
    then have e: "u0 = v0 * 0.8" "u1 = v1 * - 0.4" "u2 = v2 * 0.8" using u by simp_all
    have "u0\<^sup>2 + u2\<^sup>2 = 0.64 * (v0\<^sup>2 + v2\<^sup>2)" unfolding e by (simp add: power2_eq_square algebra_simps)
    then have "u0\<^sup>2 + u2\<^sup>2 \<le> 576" using h by simp
    moreover have "u1 \<le> 12" unfolding e using v1lo by simp
    ultimately show ?thesis by blast
  next
    case False
    then have e: "u0 = v0" "u1 = 0" "u2 = v2" using u by simp_all
    have "\<bar>v1\<bar> \<le> 2" using False by simp
    then have "v1\<^sup>2 \<le> 2\<^sup>2" using abs_le_square_iff[of v1 2] by simp
    then have "896 \<le> v0\<^sup>2 + v2\<^sup>2" using s by simp
    then show ?thesis unfolding e by blast
  qed
  have "u0\<^sup>2 + u1\<^sup>2 + u2\<^sup>2 \<le> 900"
  proof (cases "\<bar>v1\<bar> > 2")
    case True
    then have e: "u0 = v0 * 0.8" "u1 = v1 * - 0.4" "u2 = v2 * 0.8" using u by simp_all
    have "u0\<^sup>2 + u1\<^sup>2 + u2\<^sup>2 = 0.64 * (v0\<^sup>2 + v2\<^sup>2) + 0.16 * v1\<^sup>2"
      unfolding e by (simp add: power2_eq_square algebra_simps)
    also have "\<dots> \<le> v0\<^sup>2 + v2\<^sup>2 + v1\<^sup>2"
    proof -
      have "0.64 * (v0\<^sup>2 + v2\<^sup>2) \<le> v0\<^sup>2 + v2\<^sup>2" using sum_power2_ge_zero[of v0 v2] by simp
      moreover have "0.16 * v1\<^sup>2 \<le> v1\<^sup>2" by simp
      ultimately show ?thesis by (rule add_mono)
    qed
    finally show ?thesis using s by simp
  next
    case False
    then have e: "u0 = v0" "u1 = 0" "u2 = v2" using u by simp_all
    show ?thesis unfolding e using h by simp
  qed
  then have "sqrt (u0\<^sup>2 + u1\<^sup>2 + u2\<^sup>2) \<le> sqrt 900" by (simp only: real_sqrt_le_iff)
  moreover have "sqrt 900 = (30::real)" using real_sqrt_abs[of 30] by simp
  ultimately show "sqrt (u0\<^sup>2 + u1\<^sup>2 + u2\<^sup>2) \<le> 30" by simp
qed

text \<open>
  Claim C6, amended. A projectile that travels at speed 30, moving downwards, hits a
  horizontal face of the terrain (the collision is on the vertical axis, as on a flat
  slab) and triggers the destruction (the latch is set). Then between 0 and N bodies are
  appended to the moving list, where N is the number of solid cells of the radius-3
  sphere around the impacted cell. Every appended body is a debris body (neither
  projectile nor player cell) with a velocity other than zero, at the centre of a cell
  that was solid and is empty afterwards. The impacted cell itself keeps its value: it
  is still solid. A cell that changes becomes empty, and the players are untouched.
\<close>

theorem impact_destruction:
  assumes proj: "isProjectile this" "\<not> hasCollided this"
    and speed: "speedOf this = 30"
    and face: "axis collision = 1" "block collision = (xi, yi, zi)"
    and down: "vget (vel this) 1 \<le> 0"
    and trig: "hasCollided (fst (handleCollision this collision srv))"
  shows "(case handleCollision this collision srv of (this', srv') \<Rightarrow>
      (\<exists>new. movingVoxels srv' = movingVoxels srv @ new
          \<and> length new \<le> sphereSolidCount (grid srv) (xi, yi, zi)
          \<and> (\<forall>v \<in> set new. isDebris v \<and> vel v \<noteq> (0, 0, 0)
                \<and> (\<exists>e. pos v = cellCentre e \<and> cellAt (grid srv) e \<noteq> 0 \<and> cellAt (grid srv') e = 0)))
    \<and> cellAt (grid srv') (xi, yi, zi) = cellAt (grid srv) (xi, yi, zi)
    \<and> (\<forall>e. cellAt (grid srv') e \<noteq> cellAt (grid srv) e \<longrightarrow> cellAt (grid srv') e = 0)
    \<and> players srv' = players srv)"
proof -
  obtain v0 v1 v2 where v: "vel this = (v0, v1, v2)" by (cases "vel this") auto
  define u where "u = (if \<bar>v1\<bar> > 2 then (v0 * 0.8, v1 * - 0.4, v2 * 0.8) else (v0, 0, v2))"
  obtain u0 u1 u2 where u3: "u = (u0, u1, u2)" by (cases u) auto
  define this1 where "this1 = this\<lparr>vel := u\<rparr>"
  define s where "s = speedOf this1"
  note b = bounce_top[OF proj(1) face v, of srv, folded u_def, folded this1_def, folded s_def]
  have fast: "15 < s"
  proof (rule ccontr)
    assume "\<not> 15 < s"
    then have "handleCollision this collision srv = (this1, srv)" using b by simp
    then show False using trig proj(2) by (simp add: this1_def)
  qed
  then have hc: "handleCollision this collision srv = createDestruction this1 xi yi zi s srv"
    using b proj(2) by simp
  let ?this2 = "this1\<lparr>hasCollided := True\<rparr>"
  let ?srv' = "fold (destroyStep ?this2 xi yi zi s) (cubeOffsets 3) srv"
  have cd: "createDestruction this1 xi yi zi s srv = (?this2, ?srv')"
    by (simp add: createDestruction_def Let_def)
  from createDestruction_effect[where this = this1 and xi = xi and yi = yi and zi = zi and speed = s and srv = srv]
  obtain new where n: "movingVoxels ?srv' = movingVoxels srv @ new"
      "length new \<le> sphereSolidCount (grid srv) (xi, yi, zi)"
      "\<forall>v \<in> set new. isDebris v
          \<and> (\<exists>e. pos v = cellCentre e \<and> cellAt (grid srv) e \<noteq> 0 \<and> cellAt (grid ?srv') e = 0)"
    and rest: "cellAt (grid ?srv') (xi, yi, zi) = cellAt (grid srv) (xi, yi, zi)"
      "\<forall>e. cellAt (grid ?srv') e \<noteq> cellAt (grid srv) e \<longrightarrow> cellAt (grid ?srv') e = 0"
      "players ?srv' = players srv"
    unfolding cd by auto
  from destroy_fold_vel[where this = ?this2 and c = "(xi, yi, zi)" and speed = s and ds = "cubeOffsets 3" and srv = srv]
  obtain new2 where n2: "movingVoxels ?srv' = movingVoxels srv @ new2"
      "\<forall>v \<in> set new2. \<exists>d. offsetDist d \<le> 3 \<and> farOffset d \<and> vel v = debrisVelocity (vel ?this2) s d"
    by auto
  have same: "new2 = new" using n(1) n2(1) by simp
  have vu: "vel ?this2 = (u0, u1, u2)" by (simp add: this1_def u3)
  have s_eq: "s = sqrt (u0\<^sup>2 + u1\<^sup>2 + u2\<^sup>2)" by (simp add: s_def speedOf_def this1_def u3)
  have sq: "v0\<^sup>2 + v1\<^sup>2 + v2\<^sup>2 = 900" by (rule speed_squares[OF speed v])
  have d1: "v1 \<le> 0" using down by (simp add: v vget_def)
  note bb = bounce_bounds[OF sq d1 u3[symmetric, unfolded u_def]]
  have s30: "s \<le> 30" using bb(1) s_eq by simp
  have moving: "\<forall>v \<in> set new. vel v \<noteq> (0, 0, 0)"
  proof
    fix w assume "w \<in> set new"
    then obtain d where d: "offsetDist d \<le> 3" "farOffset d" "vel w = debrisVelocity (u0, u1, u2) s d"
      using n2(2) same vu by auto
    obtain dx dy dz where dd: "d = (dx, dy, dz)" by (cases d) auto
    from debrisVelocity_nonzero[OF s_eq fast s30 bb(2) bb(3) d(2)[unfolded dd] d(1)[unfolded dd]]
    show "vel w \<noteq> (0, 0, 0)" using d(3) dd by simp
  qed
  have "\<exists>new. movingVoxels ?srv' = movingVoxels srv @ new
          \<and> length new \<le> sphereSolidCount (grid srv) (xi, yi, zi)
          \<and> (\<forall>v \<in> set new. isDebris v \<and> vel v \<noteq> (0, 0, 0)
                \<and> (\<exists>e. pos v = cellCentre e \<and> cellAt (grid srv) e \<noteq> 0 \<and> cellAt (grid ?srv') e = 0))"
    using n moving by blast
  then show ?thesis unfolding hc cd using rest by simp
qed

text \<open>The theorem on the slab with every random draw equal to 0: at least one body is
  spawned, every spawned body is a debris body that moves, and the impacted cell stays
  solid.\<close>

theorem impact_destruction_witness:
  "(\<exists>new. movingVoxels (snd (handleCollision projectile30 slabCollision
               (serverWith slabWorld [] [projectile30] (\<lambda>_. 0)))) = [projectile30] @ new
        \<and> new \<noteq> [] \<and> list_all (\<lambda>v. isDebris v \<and> vel v \<noteq> (0, 0, 0)) new
        \<and> length new \<le> sphereSolidCount slabWorld (5, 4, 5))
   \<and> cellAt (grid (snd (handleCollision projectile30 slabCollision
               (serverWith slabWorld [] [projectile30] (\<lambda>_. 0))))) (5, 4, 5) = 1"
proof -
  let ?srv = "serverWith slabWorld [] [projectile30] (\<lambda>_. 0)"
  let ?p = "projectile30\<lparr>vel := (19.2, 7.2, 0)\<rparr>"
  let ?this1 = "?p\<lparr>hasCollided := True\<rparr>"
  let ?s = "speedOf ?p"
  let ?srv' = "fold (destroyStep ?this1 5 4 5 ?s) (cubeOffsets 3) ?srv"
  have hc: "handleCollision projectile30 slabCollision ?srv = (?this1, ?srv')"
    unfolding slab_impact_triggers by (simp add: createDestruction_def Let_def)
  have g: "grid ?srv = slabWorld" "movingVoxels ?srv = [projectile30]" "\<forall>n. randoms ?srv n = 0"
    by (simp_all add: serverWith_def)
  have c: "cellAt slabWorld (5, 4, 5) = 1" by (simp add: cellAt_slabWorld)
  have h1: "axis slabCollision = 1" "block slabCollision = (5, 4, 5)" by (simp_all add: slabCollision_def)
  have h2: "vget (vel projectile30) 1 \<le> 0" by (simp add: projectile30_fields vget_def)
  have h3: "hasCollided (fst (handleCollision projectile30 slabCollision ?srv))" unfolding hc by simp
  from impact_destruction[OF projectile30_fields(2,3) projectile30_speed h1 h2 h3]
  obtain new where n: "movingVoxels ?srv' = movingVoxels ?srv @ new"
      "length new \<le> sphereSolidCount (grid ?srv) (5, 4, 5)"
      "\<forall>v \<in> set new. isDebris v \<and> vel v \<noteq> (0, 0, 0)
          \<and> (\<exists>e. pos v = cellCentre e \<and> cellAt (grid ?srv) e \<noteq> 0 \<and> cellAt (grid ?srv') e = 0)"
    and i: "cellAt (grid ?srv') (5, 4, 5) = cellAt (grid ?srv) (5, 4, 5)"
    unfolding hc by auto
  have d: "(1, 0, 0) \<in> set (cubeOffsets 3)" by (simp add: in_cubeOffsets)
  have od: "offsetDist (1, 0, 0) < 3" "farOffset (1, 0, 0)"
    by (simp_all add: offsetDist_def farOffset_def)
  have sc: "cellAt (grid ?srv) (offsetCell (5, 4, 5) (1, 0, 0)) \<noteq> 0"
    by (simp add: g offsetCell_def cellAt_slabWorld)
  from destroy_fold_spawns[OF g(3) d od sc, of ?this1 ?s]
  have "length (movingVoxels ?srv) < length (movingVoxels ?srv')" by simp
  then have "new \<noteq> []" using n(1) by auto
  moreover have "list_all (\<lambda>v. isDebris v \<and> vel v \<noteq> (0, 0, 0)) new" using n(3) by (simp add: list_all_iff)
  ultimately have "\<exists>new. movingVoxels ?srv' = [projectile30] @ new
        \<and> new \<noteq> [] \<and> list_all (\<lambda>v. isDebris v \<and> vel v \<noteq> (0, 0, 0)) new
        \<and> length new \<le> sphereSolidCount slabWorld (5, 4, 5)"
    using n(1,2) g(1,2) by auto
  then show ?thesis using i c g(1) by (simp add: hc)
qed

subsection \<open>Horizontal movement of a player\<close>

lemma heightsAt_in:
  assumes "0 \<le> x" "x < 128" "0 \<le> z" "z < 128"
  shows "heightsAt w (x + z * WORLD_SIZE) = Some (getHeight w x z)"
proof -
  have "0 \<le> x + z * 128" using assms by simp
  moreover have "x + z * 128 < 128 * 128" using assms by simp
  ultimately show ?thesis using assms
    by (simp add: heightsAt_def getHeight_def WORLD_SIZE_def)
qed

lemma walker_delta: "movementDelta 0.02 walker = Some (0, 0.3)"
  by (simp add: movementDelta_def walker_def getCameraDirection_def getCameraRight_def Let_def MOVE_SPEED_def)

text \<open>
  The step-up test while the player's current column is in the grid. A player whose keys
  ask for a movement \<open>(deltaX, deltaZ)\<close> in a tick, with the cached height of the
  destination column more than \<open>STEP_HEIGHT = 6\<close> above the cached height of the current
  column: \<^verbatim>\<open>canMoveTo\<close> refuses, and the movement step returns the player as it was, so
  the center and the position of every body cell are unchanged on all axes. A
  destination outside the grid is refused as well.
\<close>

lemma step_up_rejected_in_grid:
  assumes input: "movementDelta dt p = Some (deltaX, deltaZ)"
    and c: "centerPos p = (c0, c1, c2)"
    and cur: "0 \<le> \<lfloor>c0\<rfloor>" "\<lfloor>c0\<rfloor> < 128" "0 \<le> \<lfloor>c2\<rfloor>" "\<lfloor>c2\<rfloor> < 128"
    and high: "getHeight w \<lfloor>c0 + deltaX\<rfloor> \<lfloor>c2 + deltaZ\<rfloor> - getHeight w \<lfloor>c0\<rfloor> \<lfloor>c2\<rfloor> > 6"
  shows "\<not> canMoveTo deltaX deltaZ w p
       \<and> updateHorizontalMovement dt w p = p
       \<and> centerPos (updateHorizontalMovement dt w p) = centerPos p
       \<and> map pos (bodyVoxels (updateHorizontalMovement dt w p)) = map pos (bodyVoxels p)"
proof -
  have "\<not> canMoveTo deltaX deltaZ w p"
  proof (cases "0 \<le> \<lfloor>c0 + deltaX\<rfloor> \<and> \<lfloor>c0 + deltaX\<rfloor> < 128 \<and> 0 \<le> \<lfloor>c2 + deltaZ\<rfloor> \<and> \<lfloor>c2 + deltaZ\<rfloor> < 128")
    case True
    then have dst: "0 \<le> \<lfloor>c0 + deltaX\<rfloor>" "\<lfloor>c0 + deltaX\<rfloor> < 128" "0 \<le> \<lfloor>c2 + deltaZ\<rfloor>" "\<lfloor>c2 + deltaZ\<rfloor> < 128"
      by simp_all
    show ?thesis
      using dst high
      by (simp add: canMoveTo_def c Let_def heightsAt_in[OF cur] heightsAt_in[OF dst] STEP_HEIGHT_def)
  next
    case False
    then show ?thesis by (auto simp: canMoveTo_def c Let_def WORLD_SIZE_def)
  qed
  moreover from this have "updateHorizontalMovement dt w p = p"
    by (simp add: updateHorizontalMovement_def input)
  ultimately show ?thesis by simp
qed

lemma step_up_rejected_walker:
  "updateHorizontalMovement 0.02 stepWorld walker = walker"
proof -
  have c: "centerPos walker = (64.5, 48, 64.9)" by (simp add: walker_def)
  have cur: "0 \<le> \<lfloor>64.5::real\<rfloor>" "\<lfloor>64.5::real\<rfloor> < 128" "0 \<le> \<lfloor>64.9::real\<rfloor>" "\<lfloor>64.9::real\<rfloor> < 128"
    by simp_all
  have high: "getHeight stepWorld \<lfloor>64.5 + 0::real\<rfloor> \<lfloor>64.9 + 0.3::real\<rfloor>
              - getHeight stepWorld \<lfloor>64.5::real\<rfloor> \<lfloor>64.9::real\<rfloor> > 6"
    by (simp add: getHeight_def stepWorld_def emptyWorld_def WORLD_SIZE_def)
  from step_up_rejected_in_grid[OF walker_delta c cur high] show ?thesis by simp
qed

lemma edge_smooth: "smoothCenter edgePlayer = edgePlayer\<lparr>centerPos := (- 0.2, 64, 5.5)\<rparr>"
proof -
  have "sqrt ((0.7::real) * 0.7) \<le> 2" using real_sqrt_abs2[of "0.7::real"] by simp
  then show ?thesis
    by (simp add: smoothCenter_def edgePlayer_def cellOfPlayer_def newMovingVoxel_def
        getCenterPosition_def Let_def)
qed

text \<open>
  Claim C8 fails on the code when the player's current column is outside the grid.
  \<^verbatim>\<open>canMoveTo\<close> (part_000:272, and server.js:578 inline) checks the bounds of the
  destination only and reads \<^verbatim>\<open>heights[cxi + czi * WORLD_SIZE]\<close> for the current
  column without a guard, while \<^verbatim>\<open>checkGroundCollision\<close> and \<^verbatim>\<open>stickToGround\<close> guard
  the same read. The player \<open>edgePlayer\<close> stands at the boundary, at \<open>x = 0.5\<close>; the
  re-centering step of its tick takes the center to \<open>x = -0.2\<close>, in the column \<open>-1\<close>. On
  terrain of height 16 everywhere the destination column \<open>(0, 5)\<close> has the cached height
  16 and the current column, outside the grid, has the height 0 (\<^verbatim>\<open>getHeight\<close>): the
  difference is 16, more than \<open>STEP_HEIGHT\<close>. The unguarded index \<open>-1 + 5 * 128\<close> reads the
  height of the column \<open>(127, 4)\<close> instead, the test passes, and the movement step moves
  the center and the cell by 0.3 along \<open>x\<close>.
\<close>

theorem step_up_taken_outside_grid:
  "centerPos edgePlayer = (0.5, 64, 5.5)
   \<and> centerPos (smoothCenter edgePlayer) = (- 0.2, 64, 5.5)
   \<and> movementDelta 0.02 (smoothCenter edgePlayer) = Some (0.3, 0)
   \<and> getHeight flatTerrain \<lfloor>- 0.2 + 0.3 :: real\<rfloor> \<lfloor>5.5 + 0 :: real\<rfloor>
       - getHeight flatTerrain \<lfloor>- 0.2 :: real\<rfloor> \<lfloor>5.5 :: real\<rfloor> = 16
   \<and> canMoveTo 0.3 0 flatTerrain (smoothCenter edgePlayer)
   \<and> centerPos (updateHorizontalMovement 0.02 flatTerrain (smoothCenter edgePlayer)) = (0.1, 64, 5.5)
   \<and> map pos (bodyVoxels (updateHorizontalMovement 0.02 flatTerrain (smoothCenter edgePlayer)))
       = [(0.1, 64, 5.5)]"
proof -
  have 1: "centerPos edgePlayer = (0.5, 64, 5.5)" by (simp add: edgePlayer_def)
  have 2: "centerPos (smoothCenter edgePlayer) = (- 0.2, 64, 5.5)" unfolding edge_smooth by simp
  have 3: "movementDelta 0.02 (smoothCenter edgePlayer) = Some (0.3, 0)"
    unfolding edge_smooth
    by (simp add: movementDelta_def edgePlayer_def getCameraDirection_def getCameraRight_def
        Let_def MOVE_SPEED_def)
  have 4: "getHeight flatTerrain \<lfloor>- 0.2 + 0.3 :: real\<rfloor> \<lfloor>5.5 + 0 :: real\<rfloor>
       - getHeight flatTerrain \<lfloor>- 0.2 :: real\<rfloor> \<lfloor>5.5 :: real\<rfloor> = 16"
    by (simp add: getHeight_def flatTerrain_def emptyWorld_def WORLD_SIZE_def)
  have 5: "canMoveTo 0.3 0 flatTerrain (smoothCenter edgePlayer)"
    unfolding edge_smooth
    by (simp add: canMoveTo_def edgePlayer_def Let_def heightsAt_def flatTerrain_def emptyWorld_def
        WORLD_SIZE_def STEP_HEIGHT_def)
  have u: "updateHorizontalMovement 0.02 flatTerrain (smoothCenter edgePlayer)
           = (smoothCenter edgePlayer)\<lparr>centerPos := (- 0.2 + 0.3, 64, 5.5 + 0),
                bodyVoxels := shiftVoxels (0.3, 0, 0) (bodyVoxels (smoothCenter edgePlayer))\<rparr>"
    unfolding updateHorizontalMovement_def 3 option.case prod.case if_P[OF 5] 2 ..
  have 6: "centerPos (updateHorizontalMovement 0.02 flatTerrain (smoothCenter edgePlayer)) = (0.1, 64, 5.5)"
    unfolding u by simp
  have 7: "map pos (bodyVoxels (updateHorizontalMovement 0.02 flatTerrain (smoothCenter edgePlayer)))
       = [(0.1, 64, 5.5)]"
  proof -
    have "bodyVoxels (updateHorizontalMovement 0.02 flatTerrain (smoothCenter edgePlayer))
          = shiftVoxels (0.3, 0, 0) (bodyVoxels (smoothCenter edgePlayer))"
      unfolding u by simp
    then show ?thesis
      unfolding edge_smooth
      by (simp add: shiftVoxels_def edgePlayer_def cellOfPlayer_def newMovingVoxel_def)
  qed
  show ?thesis using 1 2 3 4 5 6 7 by (intro conjI)
qed

subsection \<open>The center of a player after cells were removed\<close>

lemma fold_sum_shift:
  "fold (\<lambda>voxel acc. case acc of (sumX, sumY, sumZ) \<Rightarrow> case pos voxel of (v0, v1, v2) \<Rightarrow>
           (sumX + v0, sumY + v1, sumZ + v2)) (shiftVoxels (d0, d1, d2) vs) (a + k * d0, b + k * d1, c + k * d2)
   = (case fold (\<lambda>voxel acc. case acc of (sumX, sumY, sumZ) \<Rightarrow> case pos voxel of (v0, v1, v2) \<Rightarrow>
           (sumX + v0, sumY + v1, sumZ + v2)) vs (a, b, c) of
        (x, y, z) \<Rightarrow> (x + (k + real (length vs)) * d0, y + (k + real (length vs)) * d1,
                      z + (k + real (length vs)) * d2))"
proof (induction vs arbitrary: a b c k)
  case Nil
  show ?case by (simp add: shiftVoxels_def)
next
  case (Cons v vs)
  let ?f = "\<lambda>voxel acc. case acc of (sumX, sumY, sumZ) \<Rightarrow> case pos voxel of (v0, v1, v2) \<Rightarrow>
           (sumX + v0, sumY + v1, sumZ + (v2::real))"
  obtain v0 v1 v2 where v: "pos v = (v0, v1, v2)" by (cases "pos v") auto
  have s: "shiftVoxels (d0, d1, d2) (v # vs) = v\<lparr>pos := (v0 + d0, v1 + d1, v2 + d2)\<rparr> # shiftVoxels (d0, d1, d2) vs"
    by (simp add: shiftVoxels_def v)
  have l: "?f (v\<lparr>pos := (v0 + d0, v1 + d1, v2 + d2)\<rparr>) (a + k * d0, b + k * d1, c + k * d2)
         = ((a + v0) + (k + 1) * d0, (b + v1) + (k + 1) * d1, (c + v2) + (k + 1) * d2)"
    by (simp add: algebra_simps)
  have r: "?f v (a, b, c) = (a + v0, b + v1, c + v2)" by (simp add: v)
  have "fold ?f (shiftVoxels (d0, d1, d2) (v # vs)) (a + k * d0, b + k * d1, c + k * d2)
      = fold ?f (shiftVoxels (d0, d1, d2) vs)
          (?f (v\<lparr>pos := (v0 + d0, v1 + d1, v2 + d2)\<rparr>) (a + k * d0, b + k * d1, c + k * d2))"
    unfolding s by simp
  also have "\<dots> = fold ?f (shiftVoxels (d0, d1, d2) vs)
          ((a + v0) + (k + 1) * d0, (b + v1) + (k + 1) * d1, (c + v2) + (k + 1) * d2)"
    unfolding l ..
  also have "\<dots> = (case fold ?f vs (a + v0, b + v1, c + v2) of
        (x, y, z) \<Rightarrow> (x + (k + 1 + real (length vs)) * d0, y + (k + 1 + real (length vs)) * d1,
                      z + (k + 1 + real (length vs)) * d2))"
    by (rule Cons.IH)
  also have "\<dots> = (case fold ?f (v # vs) (a, b, c) of
        (x, y, z) \<Rightarrow> (x + (k + real (length (v # vs))) * d0, y + (k + real (length (v # vs))) * d1,
                      z + (k + real (length (v # vs))) * d2))"
    by (simp add: v add.assoc add.commute[of 1])
  finally show ?case .
qed

lemma length_shiftVoxels: "length (shiftVoxels d vs) = length vs"
  by (simp add: shiftVoxels_def)

lemma mean_shift:
  assumes "bodyVoxels p \<noteq> []" and "bodyVoxels p' = shiftVoxels d (bodyVoxels p)"
  shows "getCenterPosition p' = vadd (getCenterPosition p) d"
proof -
  obtain d0 d1 d2 where d: "d = (d0, d1, d2)" by (cases d) auto
  let ?f = "\<lambda>voxel acc. case acc of (sumX, sumY, sumZ) \<Rightarrow> case pos voxel of (v0, v1, v2) \<Rightarrow>
           (sumX + v0, sumY + v1, sumZ + (v2::real))"
  obtain x y z where f: "fold ?f (bodyVoxels p) (0, 0, 0) = (x, y, z)"
    by (cases "fold ?f (bodyVoxels p) (0, 0, 0)") auto
  have "fold ?f (shiftVoxels (d0, d1, d2) (bodyVoxels p)) (0 + 0 * d0, 0 + 0 * d1, 0 + 0 * d2)
        = (x + (0 + real (length (bodyVoxels p))) * d0, y + (0 + real (length (bodyVoxels p))) * d1,
           z + (0 + real (length (bodyVoxels p))) * d2)"
    unfolding fold_sum_shift f by simp
  then have g: "fold ?f (shiftVoxels (d0, d1, d2) (bodyVoxels p)) (0, 0, 0)
        = (x + real (length (bodyVoxels p)) * d0, y + real (length (bodyVoxels p)) * d1,
           z + real (length (bodyVoxels p)) * d2)"
    by simp
  have n: "real (length (bodyVoxels p)) \<noteq> 0" using assms(1) by simp
  show ?thesis
    using assms(1) n
    by (simp add: getCenterPosition_def assms(2) d length_shiftVoxels g f vadd_def add_divide_distrib)
qed


lemma shiftVoxels_zero: "shiftVoxels (0, 0, 0) vs = vs"
  by (induction vs) (simp_all add: shiftVoxels_def split: prod.splits)

lemma translate_keeps:
  assumes "bodyVoxels p \<noteq> []"
    and "centerPos p' = vadd (centerPos p) d \<and> bodyVoxels p' = shiftVoxels d (bodyVoxels p)"
  shows "vsub (getCenterPosition p') (centerPos p') = vsub (getCenterPosition p) (centerPos p)
         \<and> bodyVoxels p' \<noteq> []"
proof -
  have "getCenterPosition p' = vadd (getCenterPosition p) d"
    using assms by (intro mean_shift) simp_all
  moreover have "bodyVoxels p' \<noteq> []" using assms by (simp add: shiftVoxels_def)
  ultimately show ?thesis
    using assms(2) by (cases "getCenterPosition p"; cases "centerPos p"; cases d) (simp add: vadd_def vsub_def)
qed

lemma checkGroundCollision_translates:
  "\<exists>d. centerPos (checkGroundCollision w p) = vadd (centerPos p) d
       \<and> bodyVoxels (checkGroundCollision w p) = shiftVoxels d (bodyVoxels p)"
proof -
  obtain c0 c1 c2 where c: "centerPos p = (c0, c1, c2)" by (cases "centerPos p") auto
  show ?thesis
  proof (cases "c1 \<le> groundY w p + PLAYER_HALF_HEIGHT")
    case True
    then show ?thesis
      by (intro exI[of _ "(0, groundY w p + PLAYER_HALF_HEIGHT - c1, 0)"])
         (simp add: checkGroundCollision_def c Let_def vadd_def)
  next
    case False
    then show ?thesis
      by (intro exI[of _ "(0, 0, 0)"]) (simp add: checkGroundCollision_def c Let_def vadd_def shiftVoxels_zero)
  qed
qed

lemma stickToGround_translates:
  "\<exists>d. centerPos (stickToGround w p) = vadd (centerPos p) d
       \<and> bodyVoxels (stickToGround w p) = shiftVoxels d (bodyVoxels p)"
proof -
  obtain c0 c1 c2 where c: "centerPos p = (c0, c1, c2)" by (cases "centerPos p") auto
  show ?thesis
  proof (cases "c1 > groundY w p + PLAYER_HALF_HEIGHT + 1")
    case True
    then show ?thesis
      by (intro exI[of _ "(0, 0, 0)"]) (simp add: stickToGround_def c Let_def vadd_def shiftVoxels_zero)
  next
    case False
    then show ?thesis
      by (intro exI[of _ "(0, groundY w p + PLAYER_HALF_HEIGHT - c1, 0)"])
         (simp add: stickToGround_def c Let_def vadd_def)
  qed
qed

lemma updateHorizontalMovement_translates:
  "\<exists>d. centerPos (updateHorizontalMovement dt w p) = vadd (centerPos p) d
       \<and> bodyVoxels (updateHorizontalMovement dt w p) = shiftVoxels d (bodyVoxels p)"
proof -
  obtain c0 c1 c2 where c: "centerPos p = (c0, c1, c2)" by (cases "centerPos p") auto
  show ?thesis
  proof (cases "movementDelta dt p")
    case None
    then show ?thesis
      by (intro exI[of _ "(0, 0, 0)"]) (simp add: updateHorizontalMovement_def c vadd_def shiftVoxels_zero)
  next
    case (Some m)
    obtain deltaX deltaZ where m: "m = (deltaX, deltaZ)" by (cases m) auto
    show ?thesis
    proof (cases "canMoveTo deltaX deltaZ w p")
      case True
      then show ?thesis
        by (intro exI[of _ "(deltaX, 0, deltaZ)"]) (simp add: updateHorizontalMovement_def Some m c vadd_def)
    next
      case False
      then show ?thesis
        by (intro exI[of _ "(0, 0, 0)"])
           (simp add: updateHorizontalMovement_def Some m c vadd_def shiftVoxels_zero)
    qed
  qed
qed

lemma enforceBoundaries_translates:
  "\<exists>d. centerPos (enforceBoundaries p) = vadd (centerPos p) d
       \<and> bodyVoxels (enforceBoundaries p) = shiftVoxels d (bodyVoxels p)"
proof -
  obtain c0 c1 c2 where c: "centerPos p = (c0, c1, c2)" by (cases "centerPos p") auto
  let ?m = "PLAYER_HALF_WIDTH / 16"
  let ?n0 = "max ?m (min (real_of_int WORLD_SIZE - ?m) c0)"
  let ?n2 = "max ?m (min (real_of_int WORLD_SIZE - ?m) c2)"
  show ?thesis
  proof (cases "?n0 - c0 \<noteq> 0 \<or> ?n2 - c2 \<noteq> 0")
    case True
    then show ?thesis
      by (intro exI[of _ "(?n0 - c0, 0, ?n2 - c2)"]) (simp add: enforceBoundaries_def c Let_def vadd_def)
  next
    case False
    then have "?n0 = c0" "?n2 = c2" by simp_all
    then show ?thesis
      by (intro exI[of _ "(0, 0, 0)"]) (simp add: enforceBoundaries_def c Let_def vadd_def shiftVoxels_zero)
  qed
qed

lemma vdist_cong: "vsub a b = vsub a' b' \<Longrightarrow> vdist a b = vdist a' b'"
  by (cases a; cases b; cases a'; cases b') (simp add: vsub_def vdist_def)

lemma keeps_trans:
  assumes "vsub (getCenterPosition p1) (centerPos p1) = vsub (getCenterPosition p) (centerPos p) \<and> bodyVoxels p1 \<noteq> []"
    and "bodyVoxels p1 \<noteq> [] \<Longrightarrow>
         vsub (getCenterPosition p2) (centerPos p2) = vsub (getCenterPosition p1) (centerPos p1) \<and> bodyVoxels p2 \<noteq> []"
  shows "vsub (getCenterPosition p2) (centerPos p2) = vsub (getCenterPosition p) (centerPos p) \<and> bodyVoxels p2 \<noteq> []"
  using assms by simp

lemma updateVerticalPhysics_keeps:
  assumes ne: "bodyVoxels p \<noteq> []"
  shows "vsub (getCenterPosition (updateVerticalPhysics dt w p)) (centerPos (updateVerticalPhysics dt w p))
           = vsub (getCenterPosition p) (centerPos p)
         \<and> bodyVoxels (updateVerticalPhysics dt w p) \<noteq> []"
proof (cases "grounded p")
  case True
  then have u: "updateVerticalPhysics dt w p = stickToGround w p"
    by (simp add: updateVerticalPhysics_def)
  from stickToGround_translates[of w p] obtain d where
    "centerPos (stickToGround w p) = vadd (centerPos p) d
       \<and> bodyVoxels (stickToGround w p) = shiftVoxels d (bodyVoxels p)" by blast
  from translate_keeps[OF ne this] show ?thesis unfolding u .
next
  case False
  obtain c0 c1 c2 where c: "centerPos p = (c0, c1, c2)" by (cases "centerPos p") auto
  let ?vY = "velY p - GRAVITY * dt"
  let ?p1 = "p\<lparr>velY := ?vY, bodyVoxels := shiftVoxels (0, ?vY * dt, 0) (bodyVoxels p),
                 centerPos := (c0, c1 + ?vY * dt, c2)\<rparr>"
  have u: "updateVerticalPhysics dt w p = checkGroundCollision w ?p1"
    using False by (simp add: updateVerticalPhysics_def c Let_def)
  have "centerPos ?p1 = vadd (centerPos p) (0, ?vY * dt, 0)
        \<and> bodyVoxels ?p1 = shiftVoxels (0, ?vY * dt, 0) (bodyVoxels p)"
    by (simp add: c vadd_def)
  from translate_keeps[OF ne this]
  have k1: "vsub (getCenterPosition ?p1) (centerPos ?p1) = vsub (getCenterPosition p) (centerPos p)
            \<and> bodyVoxels ?p1 \<noteq> []" .
  then have ne1: "bodyVoxels ?p1 \<noteq> []" by blast
  from checkGroundCollision_translates[of w ?p1] obtain d where
    "centerPos (checkGroundCollision w ?p1) = vadd (centerPos ?p1) d
       \<and> bodyVoxels (checkGroundCollision w ?p1) = shiftVoxels d (bodyVoxels ?p1)" by blast
  from translate_keeps[OF ne1 this]
  have k2: "vsub (getCenterPosition (checkGroundCollision w ?p1)) (centerPos (checkGroundCollision w ?p1))
            = vsub (getCenterPosition ?p1) (centerPos ?p1)
            \<and> bodyVoxels (checkGroundCollision w ?p1) \<noteq> []" .
  show ?thesis unfolding u
    using trans[OF conjunct1[OF k2] conjunct1[OF k1]] conjunct2[OF k2] by (rule conjI)
qed

lemma updateHorizontalMovement_keeps:
  assumes ne: "bodyVoxels p \<noteq> []"
  shows "vsub (getCenterPosition (updateHorizontalMovement dt w p)) (centerPos (updateHorizontalMovement dt w p))
           = vsub (getCenterPosition p) (centerPos p)
         \<and> bodyVoxels (updateHorizontalMovement dt w p) \<noteq> []"
proof -
  from updateHorizontalMovement_translates[of dt w p] obtain d where
    "centerPos (updateHorizontalMovement dt w p) = vadd (centerPos p) d
       \<and> bodyVoxels (updateHorizontalMovement dt w p) = shiftVoxels d (bodyVoxels p)" by blast
  from translate_keeps[OF ne this] show ?thesis .
qed

lemma enforceBoundaries_keeps:
  assumes ne: "bodyVoxels p \<noteq> []"
  shows "vsub (getCenterPosition (enforceBoundaries p)) (centerPos (enforceBoundaries p))
           = vsub (getCenterPosition p) (centerPos p)
         \<and> bodyVoxels (enforceBoundaries p) \<noteq> []"
proof -
  from enforceBoundaries_translates[of p] obtain d where
    "centerPos (enforceBoundaries p) = vadd (centerPos p) d
       \<and> bodyVoxels (enforceBoundaries p) = shiftVoxels d (bodyVoxels p)" by blast
  from translate_keeps[OF ne this] show ?thesis .
qed

lemma smoothCenter_body: "bodyVoxels (smoothCenter p) = bodyVoxels p"
  by (simp add: smoothCenter_def Let_def split: prod.splits)

lemma mean_body:
  "bodyVoxels p' = bodyVoxels p \<Longrightarrow> bodyVoxels p \<noteq> [] \<Longrightarrow> getCenterPosition p' = getCenterPosition p"
  by (simp add: getCenterPosition_def)

lemma tick_keeps:
  assumes ne: "bodyVoxels p \<noteq> []"
  shows "centerOffset (snd (updatePhysics dt w p)) = centerOffset (smoothCenter p)
         \<and> bodyVoxels (snd (updatePhysics dt w p)) \<noteq> []"
proof -
  let ?p1 = "smoothCenter p"
  let ?p2 = "updateVerticalPhysics dt w ?p1"
  let ?p3 = "updateHorizontalMovement dt w ?p2"
  let ?p4 = "enforceBoundaries ?p3"
  have u: "snd (updatePhysics dt w p) = ?p4"
    using ne by (simp add: updatePhysics_def Let_def)
  have ne1: "bodyVoxels ?p1 \<noteq> []" using ne by (simp add: smoothCenter_body)
  note k2 = updateVerticalPhysics_keeps[OF ne1, of dt w]
  then have ne2: "bodyVoxels ?p2 \<noteq> []" by blast
  note k3 = updateHorizontalMovement_keeps[OF ne2, of dt w]
  then have ne3: "bodyVoxels ?p3 \<noteq> []" by blast
  note k4 = enforceBoundaries_keeps[OF ne3]
  have "vsub (getCenterPosition ?p4) (centerPos ?p4) = vsub (getCenterPosition ?p1) (centerPos ?p1)"
    using trans[OF conjunct1[OF k4] trans[OF conjunct1[OF k3] conjunct1[OF k2]]] .
  then have "centerOffset ?p4 = centerOffset ?p1"
    unfolding centerOffset_def by (rule vdist_cong)
  then show ?thesis unfolding u using k4 by blast
qed

lemma scaled_norm:
  "sqrt ((k * dx) * (k * dx) + (k * dy) * (k * dy) + (k * dz) * (k * dz))
     = \<bar>k\<bar> * sqrt (dx * dx + dy * dy + dz * (dz::real))"
proof -
  have "(k * dx) * (k * dx) + (k * dy) * (k * dy) + (k * dz) * (k * dz)
          = k\<^sup>2 * (dx * dx + dy * dy + dz * dz)"
    by (simp add: power2_eq_square algebra_simps)
  then show ?thesis by (simp add: real_sqrt_mult)
qed

lemma smoothCenter_far:
  assumes c: "centerPos p = (c0, c1, c2)" and n: "getCenterPosition p = (n0, n1, n2)"
    and far: "2 < centerOffset p"
  shows "centerPos (smoothCenter p) =
           (c0 + (n0 - c0) * (2 / centerOffset p), c1 + (n1 - c1) * (2 / centerOffset p),
            c2 + (n2 - c2) * (2 / centerOffset p))"
  using far unfolding centerOffset_def
  by (simp add: smoothCenter_def c n Let_def vdist_def)

lemma smoothCenter_near:
  assumes near: "centerOffset p \<le> 2"
  shows "centerPos (smoothCenter p) = getCenterPosition p"
proof -
  obtain c0 c1 c2 where c: "centerPos p = (c0, c1, c2)" by (cases "centerPos p") auto
  obtain n0 n1 n2 where n: "getCenterPosition p = (n0, n1, n2)" by (cases "getCenterPosition p") auto
  show ?thesis
    using near unfolding centerOffset_def
    by (simp add: smoothCenter_def c n Let_def vdist_def)
qed

lemma vdist_self: "vdist a a = 0"
  by (cases a) (simp add: vdist_def)

lemma smoothCenter_moves:
  "vdist (centerPos (smoothCenter p)) (centerPos p) = min (centerOffset p) 2"
proof (cases "centerOffset p \<le> 2")
  case True
  then show ?thesis by (simp add: smoothCenter_near centerOffset_def)
next
  case False
  obtain c0 c1 c2 where c: "centerPos p = (c0, c1, c2)" by (cases "centerPos p") auto
  obtain n0 n1 n2 where n: "getCenterPosition p = (n0, n1, n2)" by (cases "getCenterPosition p") auto
  let ?m = "centerOffset p"
  have far: "2 < ?m" using False by simp
  have m: "?m = sqrt ((n0 - c0) * (n0 - c0) + (n1 - c1) * (n1 - c1) + (n2 - c2) * (n2 - c2))"
    by (simp add: centerOffset_def c n vdist_def)
  have "vdist (centerPos (smoothCenter p)) (centerPos p)
        = sqrt ((2 / ?m * (n0 - c0)) * (2 / ?m * (n0 - c0)) + (2 / ?m * (n1 - c1)) * (2 / ?m * (n1 - c1))
                + (2 / ?m * (n2 - c2)) * (2 / ?m * (n2 - c2)))"
    unfolding smoothCenter_far[OF c n far] c vdist_def by (simp add: mult.commute)
  also have "\<dots> = \<bar>2 / ?m\<bar> * ?m" unfolding scaled_norm m[symmetric] ..
  also have "\<dots> = 2" using far by simp
  finally show ?thesis using far by simp
qed

lemma smoothCenter_offset:
  assumes ne: "bodyVoxels p \<noteq> []"
  shows "centerOffset (smoothCenter p) = (if centerOffset p \<le> 2 then 0 else centerOffset p - 2)"
proof (cases "centerOffset p \<le> 2")
  case True
  have "getCenterPosition (smoothCenter p) = getCenterPosition p"
    using ne by (intro mean_body) (simp_all add: smoothCenter_body)
  then show ?thesis using True by (simp add: centerOffset_def smoothCenter_near vdist_self)
next
  case False
  obtain c0 c1 c2 where c: "centerPos p = (c0, c1, c2)" by (cases "centerPos p") auto
  obtain n0 n1 n2 where n: "getCenterPosition p = (n0, n1, n2)" by (cases "getCenterPosition p") auto
  let ?m = "centerOffset p"
  have far: "2 < ?m" using False by simp
  have m: "?m = sqrt ((n0 - c0) * (n0 - c0) + (n1 - c1) * (n1 - c1) + (n2 - c2) * (n2 - c2))"
    by (simp add: centerOffset_def c n vdist_def)
  have g: "getCenterPosition (smoothCenter p) = (n0, n1, n2)"
    using ne n mean_body[of "smoothCenter p" p] by (simp add: smoothCenter_body)
  have e: "\<And>a b. a - (b + (a - b) * (2 / ?m)) = (1 - 2 / ?m) * (a - b)"
    by (simp add: algebra_simps)
  have "centerOffset (smoothCenter p)
        = sqrt (((1 - 2 / ?m) * (n0 - c0)) * ((1 - 2 / ?m) * (n0 - c0))
                + ((1 - 2 / ?m) * (n1 - c1)) * ((1 - 2 / ?m) * (n1 - c1))
                + ((1 - 2 / ?m) * (n2 - c2)) * ((1 - 2 / ?m) * (n2 - c2)))"
    unfolding centerOffset_def[of "smoothCenter p"] g smoothCenter_far[OF c n far] vdist_def
    by (simp only: prod.case e)
  also have "\<dots> = \<bar>1 - 2 / ?m\<bar> * ?m" unfolding scaled_norm m[symmetric] ..
  also have "\<dots> = ?m - 2" using far by (simp add: algebra_simps)
  finally show ?thesis using far by simp
qed

lemma ticks_offset:
  "bodyVoxels p \<noteq> [] \<Longrightarrow>
     centerOffset (ticks n dt w p) =
       (if centerOffset p \<le> 2 * real n then 0 else centerOffset p - 2 * real n)
     \<and> bodyVoxels (ticks n dt w p) \<noteq> []"
proof (induction n arbitrary: p)
  case 0
  have "0 \<le> centerOffset p" by (cases "getCenterPosition p"; cases "centerPos p") (simp add: centerOffset_def vdist_def)
  then show ?case using 0 by simp
next
  case (Suc n)
  let ?q = "snd (updatePhysics dt w p)"
  from tick_keeps[OF Suc.prems, of dt w]
  have q: "centerOffset ?q = centerOffset (smoothCenter p)" and neq: "bodyVoxels ?q \<noteq> []" by blast+
  have d1: "centerOffset ?q = (if centerOffset p \<le> 2 then 0 else centerOffset p - 2)"
    unfolding q by (rule smoothCenter_offset[OF Suc.prems])
  from Suc.IH[OF neq]
  have ih: "centerOffset (ticks n dt w ?q) =
       (if centerOffset ?q \<le> 2 * real n then 0 else centerOffset ?q - 2 * real n)"
    and ne': "bodyVoxels (ticks n dt w ?q) \<noteq> []" by blast+
  have "centerOffset (ticks (Suc n) dt w p) =
       (if centerOffset p \<le> 2 * real (Suc n) then 0 else centerOffset p - 2 * real (Suc n))"
  proof (cases "centerOffset p \<le> 2")
    case True
    then have "centerOffset ?q = 0" using d1 by simp
    then have "centerOffset (ticks n dt w ?q) = 0" using ih by simp
    moreover have "centerOffset p \<le> 2 * real (Suc n)" using True by simp
    ultimately show ?thesis by simp
  next
    case False
    then have "centerOffset ?q = centerOffset p - 2" using d1 by simp
    then have "centerOffset (ticks n dt w ?q) =
       (if centerOffset p - 2 \<le> 2 * real n then 0 else centerOffset p - 2 - 2 * real n)"
      using ih by simp
    then show ?thesis by (simp add: algebra_simps)
  qed
  then show ?case using ne' by simp
qed

lemma sqrt36: "sqrt 36 = 6"
  using real_sqrt_abs[of 6] by simp

lemma survivor_offset: "centerOffset survivor = 6"
  by (simp add: centerOffset_def survivor_def cellOfPlayer_def newMovingVoxel_def
      getCenterPosition_def vdist_def sqrt36)

lemma mono_snaps:
  "centerPos (snd (mono_updatePhysics 0.02 emptyWorld survivor)) = (70, 48, 64)"
  by (simp add: mono_updatePhysics_def survivor_def cellOfPlayer_def newMovingVoxel_def
      getCenterPosition_def updateVerticalPhysics_def stickToGround_def groundY_def
      emptyWorld_def WORLD_SIZE_def PLAYER_HALF_HEIGHT_def PLAYER_HALF_WIDTH_def
      updateHorizontalMovement_def movementDelta_def getCameraDirection_def getCameraRight_def
      enforceBoundaries_def Let_def shiftVoxels_def)

lemma strafing_tick:
  "centerPos (snd (updatePhysics 0.02 emptyWorld strafing)) = (66.3, 48, 64)"
  by (simp add: updatePhysics_def smoothCenter_def strafing_def survivor_def cellOfPlayer_def newMovingVoxel_def
      getCenterPosition_def updateVerticalPhysics_def stickToGround_def groundY_def sqrt36
      emptyWorld_def WORLD_SIZE_def PLAYER_HALF_HEIGHT_def PLAYER_HALF_WIDTH_def MOVE_SPEED_def
      updateHorizontalMovement_def movementDelta_def getCameraDirection_def getCameraRight_def
      canMoveTo_def heightsAt_def STEP_HEIGHT_def
      enforceBoundaries_def Let_def shiftVoxels_def)

text \<open>
  Claim C9, as stated, fails. The player \<open>survivor\<close> has one cell left, 6 units from the
  center it reports. One tick of \<^verbatim>\<open>Player.updatePhysics\<close> of the single-file server
  (server.js:490) assigns the mean of the remaining cells to the center: the center
  moves by 6 units and is the mean. And one tick of \<^verbatim>\<open>Player.updatePhysics\<close> of
  Player.js, for the same player with a movement key held, moves the center by more
  than 2 units: the capped shift and the movement of the tick add up.
\<close>

theorem center_snaps_or_exceeds_cap:
  "length (bodyVoxels survivor) = 1 \<and> centerOffset survivor = 6
   \<and> centerPos (snd (mono_updatePhysics 0.02 emptyWorld survivor)) = getCenterPosition survivor
   \<and> vdist (centerPos (snd (mono_updatePhysics 0.02 emptyWorld survivor))) (centerPos survivor) = 6
   \<and> 2 < vdist (centerPos (snd (updatePhysics 0.02 emptyWorld strafing))) (centerPos strafing)"
proof -
  have 1: "length (bodyVoxels survivor) = 1" by (simp add: survivor_def)
  have 2: "getCenterPosition survivor = (70, 48, 64)"
    by (simp add: survivor_def cellOfPlayer_def newMovingVoxel_def getCenterPosition_def)
  have 3: "centerPos survivor = (64, 48, 64)" "centerPos strafing = (64, 48, 64)"
    by (simp_all add: survivor_def strafing_def)
  have 4: "vdist (centerPos (snd (mono_updatePhysics 0.02 emptyWorld survivor))) (centerPos survivor) = 6"
    unfolding mono_snaps 3 by (simp add: vdist_def sqrt36)
  have "(2::real)\<^sup>2 < 2.3 * 2.3" by (simp add: power2_eq_square)
  then have "2 < sqrt (2.3 * 2.3)" by (rule real_less_rsqrt)
  then have 5: "2 < vdist (centerPos (snd (updatePhysics 0.02 emptyWorld strafing))) (centerPos strafing)"
    unfolding strafing_tick 3 by (simp add: vdist_def)
  have 6: "centerPos (snd (mono_updatePhysics 0.02 emptyWorld survivor)) = getCenterPosition survivor"
    unfolding mono_snaps 2 ..
  show ?thesis using 1 survivor_offset 6 4 5 by (intro conjI)
qed

text \<open>
  Claim C9, amended, for \<^verbatim>\<open>Player.updatePhysics\<close> of Player.js and a player with at
  least one cell, \<open>d\<close> being the distance between the center and the mean of the cells
  before the tick. The re-centering step moves the center by \<open>min d 2\<close> and leaves it at
  \<open>d - min d 2\<close> from the mean, so toward the mean and never onto it when \<open>d > 2\<close>. The
  rest of the tick moves the center and the cells together: after \<open>n\<close> ticks with no
  further removal the distance is \<open>d - 2 n\<close>, and 0 from the tick on where \<open>2 n\<close> reaches
  \<open>d\<close>.
\<close>

theorem center_shift_capped:
  assumes "bodyVoxels p \<noteq> []"
  shows "vdist (centerPos (smoothCenter p)) (centerPos p) = min (centerOffset p) 2
       \<and> centerOffset (smoothCenter p) = centerOffset p - min (centerOffset p) 2
       \<and> centerOffset (ticks n dt w p) =
           (if centerOffset p \<le> 2 * real n then 0 else centerOffset p - 2 * real n)"
proof -
  have "centerOffset (smoothCenter p) = centerOffset p - min (centerOffset p) 2"
    unfolding smoothCenter_offset[OF assms] by simp
  then show ?thesis
    using smoothCenter_moves[of p] ticks_offset[OF assms, of n dt w] by simp
qed

theorem center_shift_capped_witness:
  "bodyVoxels survivor \<noteq> [] \<and> centerOffset survivor = 6
   \<and> vdist (centerPos (smoothCenter survivor)) (centerPos survivor) = 2
   \<and> centerOffset (smoothCenter survivor) = 4
   \<and> centerOffset (ticks 1 0.02 emptyWorld survivor) = 4
   \<and> centerOffset (ticks 3 0.02 emptyWorld survivor) = 0"
proof -
  have ne: "bodyVoxels survivor \<noteq> []" by (simp add: survivor_def)
  from center_shift_capped[OF ne, where n = 1 and dt = "0.02" and w = emptyWorld]
       center_shift_capped[OF ne, where n = 3 and dt = "0.02" and w = emptyWorld]
  show ?thesis using ne by (simp add: survivor_offset)
qed

subsection \<open>The scan of the players by a projectile\<close>












lemma trajectory_args:
  "vsub (e0, e1, e2) (s0, s1, s2) = (e0 - s0, e1 - s1, e2 - s2)"
  "vdist (e0, e1, e2) (s0, s1, s2) = sqrt ((e0 - s0)\<^sup>2 + (e1 - s1)\<^sup>2 + (e2 - s2)\<^sup>2)"
  by (simp_all add: vsub_def vdist_def power2_eq_square)


lemma handle_None:
  assumes "players srv \<noteq> []" and "\<not> vdist ep sp < 0.001"
    and "scanPlayers this sp (vsub ep sp) (vdist ep sp) (players srv) (length (players srv)) = (h, None)"
  shows "handlePlayerCollisionsTrajectory this sp ep srv
           = (ReturnsNull, this\<lparr>hasLeftThrowerHitbox := h\<rparr>, srv)"
  using assms
  by (cases sp; cases ep) (simp add: handlePlayerCollisionsTrajectory_def trajectory_args Let_def)

lemma handle_Some:
  assumes "players srv \<noteq> []" and "\<not> vdist ep sp < 0.001"
    and "scanPlayers this sp (vsub ep sp) (vdist ep sp) (players srv) (length (players srv)) = (h, Some (t, k, i))"
  shows "handlePlayerCollisionsTrajectory this sp ep srv
           = (ReturnsKillProjectile,
              this\<lparr>hasLeftThrowerHitbox := h, pos := posAt sp (vsub ep sp) t\<rparr>,
              srv\<lparr>meshNeedsUpdate := True, players := withoutCell (players srv) k i\<rparr>)"
  using assms
  by (cases sp; cases ep)
     (simp add: handlePlayerCollisionsTrajectory_def trajectory_args Let_def posAt_def
         handlePlayerVoxelCollision_def withoutCell_def)

subsection \<open>The parameter of the intersection\<close>




lemma quad_min:
  fixes a b c s :: real
  assumes a: "0 < a" and s: "0 \<le> s" "s \<le> 1"
  shows "a * (max 0 (min 1 (- b / (2 * a)))) * (max 0 (min 1 (- b / (2 * a)))) + b * (max 0 (min 1 (- b / (2 * a)))) + c
         \<le> a * s * s + b * s + c"
proof -
  define p where "p = - b / (2 * a)"
  define T where "T = max 0 (min 1 p)"
  have b: "b = - 2 * a * p" using a by (simp add: p_def field_simps)
  have diff: "(a * s * s + b * s + c) - (a * T * T + b * T + c) = a * ((s - T) * (s + T - 2 * p))"
    unfolding b by (simp add: algebra_simps)
  have "0 \<le> (s - T) * (s + T - 2 * p)"
  proof -
    consider "p \<le> 0" | "1 \<le> p" | "0 < p" "p < 1" by linarith
    then show ?thesis
    proof cases
      case 1
      then have "T = 0" by (simp add: T_def)
      then show ?thesis using s 1 by (simp add: mult_nonneg_nonneg)
    next
      case 2
      then have "T = 1" by (simp add: T_def)
      then show ?thesis using s 2 by (simp add: mult_nonpos_nonpos)
    next
      case 3
      then have "T = p" by (simp add: T_def)
      then have "(s - T) * (s + T - 2 * p) = (s - p) * (s - p)" by (simp add: algebra_simps)
      then show ?thesis by simp
    qed
  qed
  then have "0 \<le> a * ((s - T) * (s + T - 2 * p))" using a by (simp add: mult_nonneg_nonneg)
  then have "a * T * T + b * T + c \<le> a * s * s + b * s + c" using diff by linarith
  then show ?thesis unfolding T_def p_def .
qed

lemma dist_quad:
  "vdist (posAt (s0, s1, s2) (x0, x1, x2) s) (q0, q1, q2) =
     sqrt ((x0\<^sup>2 + x1\<^sup>2 + x2\<^sup>2) * s * s
           + 2 * (x0 * (s0 - q0) + x1 * (s1 - q1) + x2 * (s2 - q2)) * s
           + ((s0 - q0)\<^sup>2 + (s1 - q1)\<^sup>2 + (s2 - q2)\<^sup>2))"
  unfolding vdist_def posAt_def prod.case
  by (rule arg_cong[where f = sqrt]) (simp add: power2_eq_square algebra_simps)

lemma findTrajectory_unfold:
  fixes a b c R T D :: real
  assumes sp: "sp = (s0, s1, s2)" and tr: "tr = (x0, x1, x2)" and q: "pos pv = (q0, q1, q2)"
    and R: "R = size this + size pv"
    and a: "a = x0\<^sup>2 + x1\<^sup>2 + x2\<^sup>2"
    and b: "b = 2 * (x0 * (s0 - q0) + x1 * (s1 - q1) + x2 * (s2 - q2))"
    and c: "c = (s0 - q0)\<^sup>2 + (s1 - q1)\<^sup>2 + (s2 - q2)\<^sup>2 - R\<^sup>2"
    and T: "T = max 0 (min 1 (((q0 - s0) * x0 + (q1 - s1) * x1 + (q2 - s2) * x2) / a))"
    and D: "D = b * b - 4 * a * c"
  shows "findTrajectoryVoxelIntersection this sp tr len pv =
     (if a < 0.001 then None
      else if vdist (posAt sp tr T) (pos pv) \<le> R
           then if 0 \<le> D
                then if 0 \<le> (- b - sqrt D) / (2 * a) \<and> (- b - sqrt D) / (2 * a) \<le> 1
                     then Some ((- b - sqrt D) / (2 * a))
                     else if 0 \<le> (- b + sqrt D) / (2 * a) \<and> (- b + sqrt D) / (2 * a) \<le> 1
                          then Some ((- b + sqrt D) / (2 * a))
                          else Some T
                else Some T
           else None)"
  unfolding findTrajectoryVoxelIntersection_def sp tr q prod.case Let_def
    D c b T a R vdist_def posAt_def
  by (rule refl)

lemma sqrt_le_radius:
  fixes x R :: real
  assumes "0 \<le> x" "0 \<le> R"
  shows "(sqrt x \<le> R) = (x \<le> R\<^sup>2)" "(sqrt x = R) = (x = R\<^sup>2)"
proof -
  show "(sqrt x \<le> R) = (x \<le> R\<^sup>2)"
    using assms real_le_lsqrt[of R x] sqrt_le_D[of x R] by auto
  show "(sqrt x = R) = (x = R\<^sup>2)"
  proof
    assume "sqrt x = R"
    then have "(sqrt x)\<^sup>2 = R\<^sup>2" by simp
    then show "x = R\<^sup>2" using assms(1) by simp
  next
    assume "x = R\<^sup>2"
    then show "sqrt x = R" using assms(2) by simp
  qed
qed

lemma sphere_quadratic:
  fixes a b c R :: real
  assumes R0: "0 \<le> R"
    and a: "a = x0\<^sup>2 + x1\<^sup>2 + x2\<^sup>2"
    and b: "b = 2 * (x0 * (s0 - q0) + x1 * (s1 - q1) + x2 * (s2 - q2))"
    and c: "c = (s0 - q0)\<^sup>2 + (s1 - q1)\<^sup>2 + (s2 - q2)\<^sup>2 - R\<^sup>2"
  shows "(vdist (posAt (s0, s1, s2) (x0, x1, x2) s) (q0, q1, q2) \<le> R) = (a * s * s + b * s + c \<le> 0)"
    and "(vdist (posAt (s0, s1, s2) (x0, x1, x2) s) (q0, q1, q2) = R) = (a * s * s + b * s + c = 0)"
proof -
  let ?x = "a * s * s + b * s + (c + R\<^sup>2)"
  have d: "vdist (posAt (s0, s1, s2) (x0, x1, x2) s) (q0, q1, q2) = sqrt ?x"
    unfolding dist_quad a b c by simp
  have "?x = (s0 + x0 * s - q0)\<^sup>2 + (s1 + x1 * s - q1)\<^sup>2 + (s2 + x2 * s - q2)\<^sup>2"
    unfolding a b c by (simp add: power2_eq_square algebra_simps)
  then have x0: "0 \<le> ?x" by simp
  show "(vdist (posAt (s0, s1, s2) (x0, x1, x2) s) (q0, q1, q2) \<le> R) = (a * s * s + b * s + c \<le> 0)"
    unfolding d sqrt_le_radius(1)[OF x0 R0] by auto
  show "(vdist (posAt (s0, s1, s2) (x0, x1, x2) s) (q0, q1, q2) = R) = (a * s * s + b * s + c = 0)"
    unfolding d sqrt_le_radius(2)[OF x0 R0] by auto
qed

lemma vdist_nonneg: "0 \<le> vdist u v"
  by (cases u; cases v) (simp add: vdist_def)


lemma intersection_found:
  assumes moving: "\<not> (fst tr)\<^sup>2 + (fst (snd tr))\<^sup>2 + (snd (snd tr))\<^sup>2 < 0.001"
    and w: "withinSphere this sp tr pv s"
  shows "\<exists>t. findTrajectoryVoxelIntersection this sp tr len pv = Some t"
proof -
  obtain s0 s1 s2 where sp: "sp = (s0, s1, s2)" by (cases sp) auto
  obtain x0 x1 x2 where tr: "tr = (x0, x1, x2)" by (cases tr) auto
  obtain q0 q1 q2 where q: "pos pv = (q0, q1, q2)" by (cases "pos pv") auto
  define R where "R = size this + size pv"
  define a where "a = x0\<^sup>2 + x1\<^sup>2 + x2\<^sup>2"
  define b where "b = 2 * (x0 * (s0 - q0) + x1 * (s1 - q1) + x2 * (s2 - q2))"
  define c where "c = (s0 - q0)\<^sup>2 + (s1 - q1)\<^sup>2 + (s2 - q2)\<^sup>2 - R\<^sup>2"
  define T where "T = max 0 (min 1 (((q0 - s0) * x0 + (q1 - s1) * x1 + (q2 - s2) * x2) / a))"
  define D where "D = b * b - 4 * a * c"
  note u = findTrajectory_unfold[OF sp tr q R_def a_def b_def c_def T_def D_def, of len]
  have a1: "\<not> a < 0.001" using moving by (simp add: tr a_def)
  then have a0: "0 < a" by simp
  have ds: "vdist (posAt sp tr s) (pos pv) \<le> R" and s01: "0 \<le> s" "s \<le> 1"
    using w by (simp_all add: withinSphere_def R_def)
  have R0: "0 \<le> R" using ds vdist_nonneg[of "posAt sp tr s" "pos pv"] by linarith
  note sq = sphere_quadratic[OF R0 a_def b_def c_def, folded sp tr q]
  have "((q0 - s0) * x0 + (q1 - s1) * x1 + (q2 - s2) * x2) / a = - b / (2 * a)"
    using a0 by (simp add: b_def field_simps)
  then have T': "T = max 0 (min 1 (- b / (2 * a)))" by (simp add: T_def)
  have "a * T * T + b * T + c \<le> a * s * s + b * s + c"
    unfolding T' by (rule quad_min[OF a0 s01])
  also have "\<dots> \<le> 0" using ds unfolding sq(1) .
  finally have "vdist (posAt sp tr T) (pos pv) \<le> R" unfolding sq(1) .
  then show ?thesis using a1 unfolding u by simp
qed

subsection \<open>The tick of a projectile that hits a player\<close>

lemma sqrt_81_25: "sqrt (81 / 25) = 9 / 5"
proof -
  have "sqrt ((9 / 5)\<^sup>2) = \<bar>9 / 5 :: real\<bar>" by (rule real_sqrt_abs)
  then show ?thesis by (simp add: power2_eq_square)
qed

lemma bullet_arrival:
  "arrival 0 dt (serverWith emptyWorld ps [bullet p (v0, v1, v2) n] rnd) =
     ((bullet p (v0, v1, v2) n)\<lparr>framesSinceLaunch := n + 1, vel := (v0, v1 - GRAVITY * dt, v2),
          pos := posAt p (v0, v1 - GRAVITY * dt, v2) dt\<rparr>,
      serverWith emptyWorld ps [bullet p (v0, v1, v2) n] rnd)"
proof -
  let ?b = "bullet p (v0, v1, v2) n"
  let ?b2 = "?b\<lparr>framesSinceLaunch := n + 1, vel := (v0, v1 - GRAVITY * dt, v2)\<rparr>"
  have g: "applyGravity (?b\<lparr>framesSinceLaunch := framesSinceLaunch ?b + 1\<rparr>) dt = ?b2"
    by (simp add: applyGravity_def bullet_def newMovingVoxel_def)
  have v: "isPositionValid ?b2 q emptyWorld" for q
    by (cases q) (simp add: isPositionValid_def getWorld_emptyWorld Let_def)
  have f: "findCollisionTime ?b2 s e dt emptyWorld = None" for s e
    by (simp add: findCollisionTime_def v)
  have m: "moveThroughTerrain ?b2 dt (serverWith emptyWorld ps [?b] rnd)
           = (?b2\<lparr>pos := posAt (pos ?b2) (vel ?b2) dt\<rparr>, serverWith emptyWorld ps [?b] rnd)"
    by (simp add: moveThroughTerrain_def Let_def f serverWith_def)
  have p: "pos ?b2 = p" "vel ?b2 = (v0, v1 - GRAVITY * dt, v2)" "isProjectile ?b"
    by (simp_all add: bullet_def newMovingVoxel_def)
  show ?thesis
    unfolding arrival_def Let_def
    apply (simp only: serverWith_def Server.simps nth_Cons_0 p(3) if_True g)
    apply (simp only: m[unfolded serverWith_def] p)
    done
qed

lemma createDestruction_keeps:
  "isProjectile (fst (createDestruction this xi yi zi speed srv)) = isProjectile this"
  "players (snd (createDestruction this xi yi zi speed srv)) = players srv"
  using destroy_fold_players[of "this\<lparr>hasCollided := True\<rparr>" "(xi, yi, zi)" speed "cubeOffsets 3" srv]
  by (simp_all add: createDestruction_def Let_def)

lemma handleCollision_keeps:
  "isProjectile (fst (handleCollision this collision srv)) = isProjectile this"
  "players (snd (handleCollision this collision srv)) = players srv"
  by (cases "block collision"; simp add: handleCollision_def Let_def createDestruction_keeps)+

lemma moveThroughTerrain_keeps:
  "isProjectile (fst (moveThroughTerrain this dt srv)) = isProjectile this"
  "players (snd (moveThroughTerrain this dt srv)) = players srv"
  by (simp_all add: moveThroughTerrain_def Let_def handleCollision_keeps split: option.splits)

lemma arrival_keeps:
  "isProjectile (fst (arrival j dt srv)) = isProjectile (movingVoxels srv ! j)"
  "players (snd (arrival j dt srv)) = players srv"
  by (simp_all add: arrival_def Let_def moveThroughTerrain_keeps applyGravity_def split: prod.splits)

lemma update_kills:
  assumes "\<not> isPlayerVoxel (movingVoxels srv ! j)" "isProjectile (movingVoxels srv ! j)"
    and arr: "arrival j dt srv = (this3, srv3)"
    and hit: "handlePlayerCollisionsTrajectory this3 (posAt (pos this3) (vel this3) (- dt)) (pos this3) srv3
              = (ReturnsKillProjectile, this4, srv4)"
  shows "update j dt srv = (KillProjectile, srv4\<lparr>movingVoxels := (movingVoxels srv4)[j := this4]\<rparr>)"
proof -
  have p3: "isProjectile this3" using arrival_keeps(1)[of j dt srv] arr assms(2) by simp
  show ?thesis
    using arr[unfolded arrival_def Let_def] assms(1,2)
    by (simp add: update_def Let_def p3 hit)
qed



subsection \<open>Projectiles on the \<open>x\<close> axis\<close>

text \<open>The scenarios: a projectile that moves one unit along \<open>+x\<close> in its tick, in an empty
  world, against cells on its line of flight.\<close>

lemma bullet_fields:
  "size (bullet p v n) = 0.45" "throwerId (bullet p v n) = Some ''player_1''"
  "hasLeftThrowerHitbox (bullet p v n) = False" "framesSinceLaunch (bullet p v n) = n"
  "isProjectile (bullet p v n)" "\<not> isPlayerVoxel (bullet p v n)" "pos (bullet p v n) = p" "vel (bullet p v n) = v"
  by (simp_all add: bullet_def newMovingVoxel_def VOXEL_SIZE_def)

lemma cellOf_fields: "size (cellOf pid p) = 0.45" "pos (cellOf pid p) = p"
  by (simp_all add: cellOf_def newMovingVoxel_def VOXEL_SIZE_def)

lemma on_axis:
  assumes "size this = 0.45"
  shows "findTrajectoryVoxelIntersection this (sx, y, z) (1, 0, 0) len (cellOf pid (sx + d, y, z)) =
     (if \<bar>max 0 (min 1 d) - d\<bar> \<le> 0.9
      then if 0 \<le> d - 0.9 \<and> d - 0.9 \<le> 1 then Some (d - 0.9)
           else if 0 \<le> d + 0.9 \<and> d + 0.9 \<le> 1 then Some (d + 0.9)
           else Some (max 0 (min 1 d))
      else None)"
proof -
  have u: "findTrajectoryVoxelIntersection this (sx, y, z) (1, 0, 0) len (cellOf pid (sx + d, y, z)) =
     (if (1::real) < 0.001 then None
      else if vdist (posAt (sx, y, z) (1, 0, 0) (max 0 (min 1 d))) (pos (cellOf pid (sx + d, y, z))) \<le> 0.9
           then if 0 \<le> (81 / 25 :: real)
                then if 0 \<le> (- (2 * (- d)) - sqrt (81 / 25)) / (2 * 1) \<and> (- (2 * (- d)) - sqrt (81 / 25)) / (2 * 1) \<le> 1
                     then Some ((- (2 * (- d)) - sqrt (81 / 25)) / (2 * 1))
                     else if 0 \<le> (- (2 * (- d)) + sqrt (81 / 25)) / (2 * 1) \<and> (- (2 * (- d)) + sqrt (81 / 25)) / (2 * 1) \<le> 1
                          then Some ((- (2 * (- d)) + sqrt (81 / 25)) / (2 * 1))
                          else Some (max 0 (min 1 d))
                else Some (max 0 (min 1 d))
           else None)"
    by (rule findTrajectory_unfold[where a = 1 and b = "2 * (- d)" and c = "d\<^sup>2 - 0.9\<^sup>2" and R = "0.9"
          and ?s0.0 = sx and ?s1.0 = y and ?s2.0 = z and ?x0.0 = 1 and ?x1.0 = 0 and ?x2.0 = 0
          and ?q0.0 = "sx + d" and ?q1.0 = y and ?q2.0 = z])
       (simp_all add: cellOf_fields assms power2_eq_square algebra_simps)
  have v: "vdist (posAt (sx, y, z) (1, 0, 0) (max 0 (min 1 d))) (pos (cellOf pid (sx + d, y, z)))
           = \<bar>max 0 (min 1 d) - d\<bar>"
    by (simp add: vdist_def posAt_def cellOf_fields)
  show ?thesis unfolding u v sqrt_81_25 by (simp add: field_simps)
qed

lemma tick_arrival:
  "arrival 0 0.02 (serverWith emptyWorld ps [bullet (sx, 60, 64) (50, 0.8, 0) n] rnd) =
     ((bullet (sx, 60, 64) (50, 0.8, 0) n)\<lparr>framesSinceLaunch := n + 1, vel := (50, 0, 0),
          pos := (sx + 1, 60, 64)\<rparr>,
      serverWith emptyWorld ps [bullet (sx, 60, 64) (50, 0.8, 0) n] rnd)"
  unfolding bullet_arrival by (simp add: GRAVITY_def posAt_def)

lemma moved_fields:
  "size ((bullet p v n)\<lparr>framesSinceLaunch := m, vel := u, pos := q\<rparr>) = 0.45"
  "throwerId ((bullet p v n)\<lparr>framesSinceLaunch := m, vel := u, pos := q\<rparr>) = Some ''player_1''"
  "hasLeftThrowerHitbox ((bullet p v n)\<lparr>framesSinceLaunch := m, vel := u, pos := q\<rparr>) = False"
  "framesSinceLaunch ((bullet p v n)\<lparr>framesSinceLaunch := m, vel := u, pos := q\<rparr>) = m"
  "pos ((bullet p v n)\<lparr>framesSinceLaunch := m, vel := u, pos := q\<rparr>) = q"
  "vel ((bullet p v n)\<lparr>framesSinceLaunch := m, vel := u, pos := q\<rparr>) = u"
  by (simp_all add: bullet_fields)

lemma scanPlayers_one:
  "scanPlayers this sp tr len [e] (length [e]) = scanPlayer this sp tr len [e] 0 (hasLeftThrowerHitbox this, None)"
  by (simp add: scanPlayers_def)



lemma scanPlayer_thrower_late:
  assumes "ps ! k = (pid, player)" "Some pid = throwerId this" "\<not> h" "\<not> framesSinceLaunch this < 10"
  shows "scanPlayer this sp tr len ps k (h, c) = (True, scanVoxels this sp tr len k player c)"
  using assms by (simp add: scanPlayer_def skipsThrower_def)

lemma scanPlayer_thrower_early:
  assumes "ps ! k = (pid, player)" "Some pid = throwerId this" "\<not> h" "framesSinceLaunch this < 10"
    "vdist sp (getCenterPosition player) < 20"
  shows "scanPlayer this sp tr len ps k (h, c) = (h, c)"
  using assms by (simp add: scanPlayer_def skipsThrower_def Let_def)


lemma scanVoxels_first:
  assumes "bodyVoxels player = [v0, v1]"
    and "findTrajectoryVoxelIntersection this sp tr len v0 = Some t0" "0 \<le> t0" "t0 \<le> 1"
    and "findTrajectoryVoxelIntersection this sp tr len v1 = None"
  shows "scanVoxels this sp tr len k player None = Some (t0, k, 0)"
  using assms by (simp add: scanVoxels_def scanVoxel_def belowClosestT_def numeral_2_eq_2)




lemma unit_segment:
  "vsub (sx + 1, y, z) (sx, y, z) = (1, 0, 0)"
  "vdist (sx + 1, y, z) (sx, y, z) = 1"
  "posAt (sx + 1, y, z) (50, 0, 0) (- 0.02) = (sx, y, z)"
  by (simp_all add: vsub_def vdist_def posAt_def)

lemma tick_kills:
  assumes ne: "ps \<noteq> []"
    and scan: "scanPlayers ((bullet (sx, 60, 64) (50, 0.8, 0) n)\<lparr>framesSinceLaunch := n + 1, vel := (50, 0, 0),
                     pos := (sx + 1, 60, 64)\<rparr>) (sx, 60, 64) (1, 0, 0) 1 ps (length ps) = (h, Some (t, k, i))"
  shows "update 0 0.02 (serverWith emptyWorld ps [bullet (sx, 60, 64) (50, 0.8, 0) n] rnd) =
     (KillProjectile,
      (serverWith emptyWorld ps [bullet (sx, 60, 64) (50, 0.8, 0) n] rnd)
        \<lparr>meshNeedsUpdate := True, players := withoutCell ps k i,
         movingVoxels := [(bullet (sx, 60, 64) (50, 0.8, 0) n)\<lparr>framesSinceLaunch := n + 1, vel := (50, 0, 0),
                     pos := (sx + 1, 60, 64), hasLeftThrowerHitbox := h, pos := posAt (sx, 60, 64) (1, 0, 0) t\<rparr>]\<rparr>)"
proof -
  let ?srv = "serverWith emptyWorld ps [bullet (sx, 60, 64) (50, 0.8, 0) n] rnd"
  let ?b3 = "(bullet (sx, 60, 64) (50, 0.8, 0) n)\<lparr>framesSinceLaunch := n + 1, vel := (50, 0, 0),
                     pos := (sx + 1, 60, 64)\<rparr>"
  have f: "movingVoxels ?srv ! 0 = bullet (sx, 60, 64) (50, 0.8, 0) n" "players ?srv = ps"
    "movingVoxels ?srv = [bullet (sx, 60, 64) (50, 0.8, 0) n]"
    by (simp_all add: serverWith_def)
  have p: "\<not> isPlayerVoxel (movingVoxels ?srv ! 0)" "isProjectile (movingVoxels ?srv ! 0)"
    unfolding f by (simp_all add: bullet_fields)
  have ne': "players ?srv \<noteq> []" unfolding f by (rule ne)
  have far: "\<not> vdist (sx + 1, 60, 64) (sx, 60, 64) < 0.001" unfolding unit_segment by simp
  have scan': "scanPlayers ?b3 (sx, 60, 64) (vsub (sx + 1, 60, 64) (sx, 60, 64)) (vdist (sx + 1, 60, 64) (sx, 60, 64))
                 (players ?srv) (length (players ?srv)) = (h, Some (t, k, i))"
    unfolding unit_segment f by (rule scan)
  note hs = handle_Some[OF ne' far scan', unfolded unit_segment]
  have hit: "handlePlayerCollisionsTrajectory ?b3 (posAt (pos ?b3) (vel ?b3) (- 0.02)) (pos ?b3) ?srv =
      (ReturnsKillProjectile, ?b3\<lparr>hasLeftThrowerHitbox := h, pos := posAt (sx, 60, 64) (1, 0, 0) t\<rparr>,
       ?srv\<lparr>meshNeedsUpdate := True, players := withoutCell (players ?srv) k i\<rparr>)"
    unfolding moved_fields unit_segment by (rule hs)
  from update_kills[OF p tick_arrival hit]
  show ?thesis by (simp add: serverWith_def)
qed

lemma axis_dist: "vdist (a, y, z) (b, y, z) = \<bar>a - b\<bar>"
  by (simp add: vdist_def)



lemma own_scan_late:
  "scanPlayers ((bullet (10, 60, 64) (50, 0.8, 0) 9)\<lparr>framesSinceLaunch := 9 + 1, vel := (50, 0, 0), pos := (10 + 1, 60, 64)\<rparr>)
     (10, 60, 64) (1, 0, 0) 1 (players (ownServer 9)) (length (players (ownServer 9)))
   = (True, Some (0.6, 0, 0))"
proof -
  let ?b = "(bullet (10, 60, 64) (50, 0.8, 0) 9)\<lparr>framesSinceLaunch := 9 + 1, vel := (50, 0, 0), pos := (10 + 1, 60, 64)\<rparr>"
  let ?p = "standing ''player_1'' (12, 60, 64) [(10 + 1.5, 60, 64), (10 + 2.5, 60, 64)]"
  have ps: "players (ownServer 9) = [(''player_1'', ?p)]"
    by (simp add: ownServer_def serverWith_def)
  have c0: "findTrajectoryVoxelIntersection ?b (10, 60, 64) (1, 0, 0) 1 (cellOf ''player_1'' (10 + 1.5, 60, 64)) = Some 0.6"
    unfolding on_axis[OF moved_fields(1)] by simp
  have c1: "findTrajectoryVoxelIntersection ?b (10, 60, 64) (1, 0, 0) 1 (cellOf ''player_1'' (10 + 2.5, 60, 64)) = None"
    unfolding on_axis[OF moved_fields(1)] by simp
  have b: "bodyVoxels ?p = [cellOf ''player_1'' (10 + 1.5, 60, 64), cellOf ''player_1'' (10 + 2.5, 60, 64)]"
    by (simp add: standing_def)
  have sv: "scanVoxels ?b (10, 60, 64) (1, 0, 0) 1 0 ?p None = Some (0.6, 0, 0)"
    by (rule scanVoxels_first[OF b c0 _ _ c1]) simp_all
  have o: "scanPlayer ?b (10, 60, 64) (1, 0, 0) 1 [(''player_1'', ?p)] 0 (False, None)
           = (True, scanVoxels ?b (10, 60, 64) (1, 0, 0) 1 0 ?p None)"
    by (rule scanPlayer_thrower_late[where pid = "''player_1''"]) (simp_all add: moved_fields)
  show ?thesis
    unfolding ps scanPlayers_one moved_fields(3) o sv ..
qed

lemma own_scan_early:
  assumes n: "n < 9"
  shows "scanPlayers ((bullet (10, 60, 64) (50, 0.8, 0) n)\<lparr>framesSinceLaunch := n + 1, vel := (50, 0, 0), pos := (10 + 1, 60, 64)\<rparr>)
     (10, 60, 64) (1, 0, 0) 1 (players (ownServer n)) (length (players (ownServer n)))
   = (False, None)"
proof -
  let ?b = "(bullet (10, 60, 64) (50, 0.8, 0) n)\<lparr>framesSinceLaunch := n + 1, vel := (50, 0, 0), pos := (10 + 1, 60, 64)\<rparr>"
  let ?p = "standing ''player_1'' (12, 60, 64) [(11.5, 60, 64), (12.5, 60, 64)]"
  have ps: "players (ownServer n) = [(''player_1'', ?p)]"
    by (simp add: ownServer_def serverWith_def)
  have m: "getCenterPosition ?p = (12, 60, 64)"
    by (simp add: getCenterPosition_def standing_def cellOf_def newMovingVoxel_def)
  have "vdist (10, 60, 64) (12, 60, 64) = \<bar>10 - 12 :: real\<bar>" by (rule axis_dist)
  then have d: "vdist (10, 60, 64) (getCenterPosition ?p) < 20" unfolding m by simp
  have o: "scanPlayer ?b (10, 60, 64) (1, 0, 0) 1 [(''player_1'', ?p)] 0 (False, None) = (False, None)"
    by (rule scanPlayer_thrower_early[where pid = "''player_1''" and player = ?p, OF _ _ _ _ d])
       (simp_all add: moved_fields n)
  show ?thesis
    unfolding ps scanPlayers_one moved_fields(3) o ..
qed


lemma withoutCell_single:
  "withoutCell [(pid, standing pid c [a, b])] 0 0 = [(pid, (standing pid c [a, b])\<lparr>bodyVoxels := [cellOf pid b]\<rparr>)]"
  "withoutCell [(pid, standing pid c [a, b])] 0 (Suc 0) = [(pid, (standing pid c [a, b])\<lparr>bodyVoxels := [cellOf pid a]\<rparr>)]"
  by (simp_all add: withoutCell_def splice1_def standing_def)





lemma own_outcome:
  "update 0 0.02 (ownServer 9) =
     (KillProjectile,
      (ownServer 9)\<lparr>meshNeedsUpdate := True,
         players := [(''player_1'', (standing ''player_1'' (12, 60, 64) [(11.5, 60, 64), (12.5, 60, 64)])
                        \<lparr>bodyVoxels := [cellOf ''player_1'' (12.5, 60, 64)]\<rparr>)],
         movingVoxels := [(bullet (10, 60, 64) (50, 0.8, 0) 9)\<lparr>framesSinceLaunch := 10, vel := (50, 0, 0),
                     hasLeftThrowerHitbox := True, pos := (10.6, 60, 64)\<rparr>]\<rparr>)"
proof -
  have ne: "players (ownServer 9) \<noteq> []" by (simp add: ownServer_def serverWith_def)
  have s: "ownServer 9 = serverWith emptyWorld (players (ownServer 9)) [bullet (10, 60, 64) (50, 0.8, 0) 9] (\<lambda>_. 0)"
    by (simp add: ownServer_def serverWith_def)
  have w: "withoutCell (players (ownServer 9)) 0 0 =
      [(''player_1'', (standing ''player_1'' (12, 60, 64) [(11.5, 60, 64), (12.5, 60, 64)])
                        \<lparr>bodyVoxels := [cellOf ''player_1'' (12.5, 60, 64)]\<rparr>)]"
    by (simp add: ownServer_def serverWith_def withoutCell_single)
  from tick_kills[OF ne own_scan_late, of "\<lambda>_. 0", folded s]
  show ?thesis by (simp add: w posAt_def bullet_def newMovingVoxel_def)
qed

text \<open>Up to the ninth update the thrower test does skip the thrower in the same position.\<close>

lemma own_immune_early:
  assumes n: "n < 9"
  shows "handlePlayerCollisionsTrajectory
           ((bullet (10, 60, 64) (50, 0.8, 0) n)\<lparr>framesSinceLaunch := n + 1, vel := (50, 0, 0), pos := (10 + 1, 60, 64)\<rparr>)
           (10, 60, 64) (10 + 1, 60, 64) (ownServer n)
         = (ReturnsNull,
            (bullet (10, 60, 64) (50, 0.8, 0) n)\<lparr>framesSinceLaunch := n + 1, vel := (50, 0, 0), pos := (10 + 1, 60, 64),
               hasLeftThrowerHitbox := False\<rparr>,
            ownServer n)"
proof -
  have ne: "players (ownServer n) \<noteq> []" by (simp add: ownServer_def serverWith_def)
  have far: "\<not> vdist (10 + 1, 60, 64) (10, 60, 64) < (0.001::real)" unfolding unit_segment by simp
  show ?thesis
    by (rule handle_None[OF ne far]) (simp only: unit_segment own_scan_early[OF n])
qed

lemma inside_never_on_sphere:
  assumes that: "size this = 0.45"
  shows "\<not> onSphere this (9.5, 60, 64) (1, 0, 0) (cellOf ''player_2'' (10, 60, 64)) s"
proof
  assume o: "onSphere this (9.5, 60, 64) (1, 0, 0) (cellOf ''player_2'' (10, 60, 64)) s"
  have "vdist (posAt (9.5, 60, 64) (1, 0, 0) s) (pos (cellOf ''player_2'' (10, 60, 64))) = \<bar>9.5 + s - 10\<bar>"
    by (simp add: posAt_def cellOf_fields vdist_def)
  then have "\<bar>9.5 + s - 10\<bar> = 0.9" "0 \<le> s" "s \<le> 1"
    using o that by (simp_all add: onSphere_def cellOf_fields)
  then show False by (simp add: abs_if split: if_splits)
qed



text \<open>
  Claim C4 fails on \<^verbatim>\<open>handlePlayerCollisionsTrajectory\<close>. Its gate skips the thrower
  while \<^verbatim>\<open>dist < 20 && this.framesSinceLaunch < 10\<close> (server.js:1652); the tests of
  the sibling methods lift the immunity when \<^verbatim>\<open>dist > 20 || this.framesSinceLaunch > 10\<close>
  (server.js:271, server.js:1723, game/MovingVoxel.js:432). In \<open>ownServer 9\<close> the
  projectile has been updated 9 times and has not left the hitbox of its thrower, whose
  center is 2 units away. Its tenth update counts the frame 10, does not skip the
  thrower, and removes the cell of the thrower at \<open>x = 11.5\<close> together with the
  projectile.
\<close>

theorem thrower_hit_on_tenth_frame:
  "framesSinceLaunch (movingVoxels (ownServer 9) ! 0) = 9
   \<and> \<not> hasLeftThrowerHitbox (movingVoxels (ownServer 9) ! 0)
   \<and> throwerId (movingVoxels (ownServer 9) ! 0) = Some (fst (players (ownServer 9) ! 0))
   \<and> vdist (10, 60, 64) (getCenterPosition (snd (players (ownServer 9) ! 0))) = 2
   \<and> fst (update 0 0.02 (ownServer 9)) = KillProjectile
   \<and> framesSinceLaunch (movingVoxels (snd (update 0 0.02 (ownServer 9))) ! 0) = 10
   \<and> map pos (bodyVoxels (snd (players (snd (update 0 0.02 (ownServer 9))) ! 0))) = [(12.5, 60, 64)]"
proof -
  have m: "getCenterPosition (snd (players (ownServer 9) ! 0)) = (12, 60, 64)"
    by (simp add: ownServer_def serverWith_def getCenterPosition_def standing_def cellOf_def newMovingVoxel_def)
  have "vdist (10, 60, 64) (12, 60, 64) = \<bar>10 - 12 :: real\<bar>" by (rule axis_dist)
  then have 4: "vdist (10, 60, 64) (getCenterPosition (snd (players (ownServer 9) ! 0))) = 2"
    unfolding m by simp
  have 1: "framesSinceLaunch (movingVoxels (ownServer 9) ! 0) = 9"
    "\<not> hasLeftThrowerHitbox (movingVoxels (ownServer 9) ! 0)"
    "throwerId (movingVoxels (ownServer 9) ! 0) = Some (fst (players (ownServer 9) ! 0))"
    by (simp_all add: ownServer_def serverWith_def bullet_fields)
  have 5: "fst (update 0 0.02 (ownServer 9)) = KillProjectile"
    "framesSinceLaunch (movingVoxels (snd (update 0 0.02 (ownServer 9))) ! 0) = 10"
    "map pos (bodyVoxels (snd (players (snd (update 0 0.02 (ownServer 9))) ! 0))) = [(12.5, 60, 64)]"
    unfolding own_outcome by (simp_all add: cellOf_fields)
  show ?thesis using 1 4 5 by (intro conjI)
qed

end
